theory Spec2Isabelle
  imports Main "HOL-Library.AList"
begin

section \<open>Python values, exceptions and dictionaries\<close>

text \<open>
  The bridge of \<^verbatim>\<open>ptvsd/wrapper.py\<close> is embedded function by function. A Python
  exception is a value of \<open>error\<close>; an operation that can raise after it has already
  changed an object returns the pair of its outcome and the object as the raise left it.
  A \<^verbatim>\<open>dict\<close> is an association list in insertion order: \<open>map_of\<close> reads a key,
  \<open>AList.update\<close> is \<^verbatim>\<open>d[k] = v\<close> (an existing key keeps its place), and
  \<open>AList.delete\<close> is \<^verbatim>\<open>del d[k]\<close> once the key is known to be present.
\<close>

datatype error =
  KeyError | ValueError | TypeError | IndexError | AttributeError | UnicodeDecodeError

text \<open>The values that occur as (components of) pydevd ids: \<^verbatim>\<open>None\<close>, integers, strings.\<close>

datatype pyval = PNone | PInt int | PStr string

type_synonym ('k, 'v) dict = "('k \<times> 'v) list"

section \<open>IDMap\<close>

record 'k IDMap =
  vscode_to_pydevd :: "(int, 'k) dict"
  pydevd_to_vscode :: "('k, int) dict"
  next_id :: int

definition IDMap_init :: "'k IDMap" where
  "IDMap_init = \<lparr>vscode_to_pydevd = [], pydevd_to_vscode = [], next_id = 1\<rparr>"

definition pairs :: "'k IDMap \<Rightarrow> ('k \<times> int) list" where
  "pairs m = pydevd_to_vscode m"

text \<open>
  The argument of \<^verbatim>\<open>add\<close> is either the pydevd id itself or a callable that makes
  it from the new VSCode id (\<^verbatim>\<open>callable(pydevd_id)\<close>).
\<close>

datatype 'k id_source = Given 'k | Callable "int \<Rightarrow> 'k"

definition add :: "'k id_source \<Rightarrow> 'k IDMap \<Rightarrow> int \<times> 'k IDMap" where
  "add src m =
    (let vscode_id = next_id m;
         pydevd_id = (case src of Callable f \<Rightarrow> f vscode_id | Given k \<Rightarrow> k)
     in (vscode_id,
         \<lparr>vscode_to_pydevd = AList.update vscode_id pydevd_id (vscode_to_pydevd m),
          pydevd_to_vscode = AList.update pydevd_id vscode_id (pydevd_to_vscode m),
          next_id = next_id m + 1\<rparr>))"

text \<open>
  \<^verbatim>\<open>remove(pydevd_id=None, vscode_id=None)\<close>: an argument left out is \<open>None\<close>. The
  missing key is read from the other dictionary (a \<^verbatim>\<open>KeyError\<close> when it is not
  there); then the two \<^verbatim>\<open>del\<close> statements run in turn, and the second can raise
  after the first has deleted.
\<close>

definition remove :: "'k option \<Rightarrow> int option \<Rightarrow> 'k IDMap \<Rightarrow> (error + unit) \<times> 'k IDMap" where
  "remove pydevd_id vscode_id m =
    (case (case pydevd_id of
             None \<Rightarrow>
               (case vscode_id of
                  None \<Rightarrow> None
                | Some v \<Rightarrow> map_option (\<lambda>p. (p, v)) (map_of (vscode_to_pydevd m) v))
           | Some p \<Rightarrow>
               (case vscode_id of
                  None \<Rightarrow> map_option (\<lambda>v. (p, v)) (map_of (pydevd_to_vscode m) p)
                | Some v \<Rightarrow> Some (p, v))) of
       None \<Rightarrow> (Inl KeyError, m)
     | Some (p, v) \<Rightarrow>
         if map_of (vscode_to_pydevd m) v = None then (Inl KeyError, m)
         else
           let m1 = m\<lparr>vscode_to_pydevd := AList.delete v (vscode_to_pydevd m)\<rparr>
           in if map_of (pydevd_to_vscode m1) p = None then (Inl KeyError, m1)
              else (Inr (), m1\<lparr>pydevd_to_vscode := AList.delete p (pydevd_to_vscode m1)\<rparr>))"

definition to_pydevd :: "'k IDMap \<Rightarrow> int \<Rightarrow> error + 'k" where
  "to_pydevd m vscode_id =
    (case map_of (vscode_to_pydevd m) vscode_id of
       None \<Rightarrow> Inl KeyError
     | Some p \<Rightarrow> Inr p)"

definition to_vscode :: "'k \<Rightarrow> bool \<Rightarrow> 'k IDMap \<Rightarrow> (error + int) \<times> 'k IDMap" where
  "to_vscode pydevd_id autogen m =
    (case map_of (pydevd_to_vscode m) pydevd_id of
       Some v \<Rightarrow> (Inr v, m)
     | None \<Rightarrow>
         if autogen then (Inr (fst (add (Given pydevd_id) m)), snd (add (Given pydevd_id) m))
         else (Inl KeyError, m))"

definition pydevd_ids :: "'k IDMap \<Rightarrow> 'k list" where
  "pydevd_ids m = map fst (pydevd_to_vscode m)"

definition vscode_ids :: "'k IDMap \<Rightarrow> int list" where
  "vscode_ids m = map fst (vscode_to_pydevd m)"

subsection \<open>Sequences of calls on one IDMap\<close>

datatype 'k idmap_call =
    Add "'k id_source"
  | Remove "'k option" "int option"
  | ToVscode 'k bool

fun call :: "'k idmap_call \<Rightarrow> 'k IDMap \<Rightarrow> 'k IDMap" where
  "call (Add src) m = snd (add src m)"
| "call (Remove p v) m = snd (remove p v m)"
| "call (ToVscode p autogen) m = snd (to_vscode p autogen m)"

fun calls :: "'k idmap_call list \<Rightarrow> 'k IDMap \<Rightarrow> 'k IDMap" where
  "calls [] m = m"
| "calls (c # cs) m = calls cs (call c m)"

text \<open>The VSCode ids that the calls to \<^verbatim>\<open>add\<close> hand out, in the order of the calls
  (\<^verbatim>\<open>to_vscode\<close> calls \<^verbatim>\<open>add\<close> when the id is unmapped and \<^verbatim>\<open>autogen\<close> is set).\<close>

fun allocated :: "'k idmap_call \<Rightarrow> 'k IDMap \<Rightarrow> int list" where
  "allocated (Add src) m = [fst (add src m)]"
| "allocated (Remove p v) m = []"
| "allocated (ToVscode p autogen) m =
     (if map_of (pydevd_to_vscode m) p = None \<and> autogen then [fst (add (Given p) m)] else [])"

fun allocations :: "'k idmap_call list \<Rightarrow> 'k IDMap \<Rightarrow> int list" where
  "allocations [] m = []"
| "allocations (c # cs) m = allocated c m @ allocations cs (call c m)"

text \<open>
  The way the bridge calls an IDMap: \<^verbatim>\<open>add\<close> only for a pydevd id that is not mapped
  (the breakpoint factory builds it from the new VSCode id), and \<^verbatim>\<open>remove\<close> with both
  arguments only for a pair taken from \<^verbatim>\<open>pairs()\<close>.
\<close>

fun as_used :: "'k idmap_call \<Rightarrow> 'k IDMap \<Rightarrow> bool" where
  "as_used (Add src) m =
     (map_of (pydevd_to_vscode m)
        (case src of Callable f \<Rightarrow> f (next_id m) | Given k \<Rightarrow> k) = None)"
| "as_used (Remove (Some p) (Some v)) m = (map_of (pydevd_to_vscode m) p = Some v)"
| "as_used (Remove p v) m = True"
| "as_used (ToVscode p autogen) m = True"

fun all_as_used :: "'k idmap_call list \<Rightarrow> 'k IDMap \<Rightarrow> bool" where
  "all_as_used [] m = True"
| "all_as_used (c # cs) m = (as_used c m \<and> all_as_used cs (call c m))"

text \<open>The two dictionaries of a map are inverse to each other, no key is stored twice,
  and every VSCode id in use is below the counter.\<close>

definition IDMap_inv :: "'k IDMap \<Rightarrow> bool" where
  "IDMap_inv m \<longleftrightarrow>
     distinct (map fst (vscode_to_pydevd m)) \<and>
     distinct (map fst (pydevd_to_vscode m)) \<and>
     (\<forall>e b. map_of (vscode_to_pydevd m) e = Some b \<longleftrightarrow> map_of (pydevd_to_vscode m) b = Some e) \<and>
     (\<forall>e b. map_of (vscode_to_pydevd m) e = Some b \<longrightarrow> e < next_id m)"

text \<open>Every VSCode id in use is below the counter: this part of the invariant holds
  whatever the calls are.\<close>

definition ids_below_counter :: "'k IDMap \<Rightarrow> bool" where
  "ids_below_counter m \<longleftrightarrow>
     (\<forall>e b. map_of (vscode_to_pydevd m) e = Some b \<longrightarrow> e < next_id m)"

section \<open>Strings\<close>

definition TAB :: char where
  "TAB = CHR 0x09"

definition NEWLINE :: char where
  "NEWLINE = CHR 0x0A"

text \<open>\<^verbatim>\<open>str(n)\<close> of an integer: its decimal digits, with a minus sign when negative.\<close>

definition digit :: "nat \<Rightarrow> char" where
  "digit n = ''0123456789'' ! n"

function str_nat :: "nat \<Rightarrow> string" where
  "str_nat n = (if n < 10 then [digit n] else str_nat (n div 10) @ [digit (n mod 10)])"
  by pat_completeness auto
termination
  by (relation "measure (\<lambda>n. n)") auto

declare str_nat.simps [simp del]

definition str_int :: "int \<Rightarrow> string" where
  "str_int i = (if i < 0 then CHR ''-'' # str_nat (nat (- i)) else str_nat (nat i))"

text \<open>\<^verbatim>\<open>str(x)\<close>, as the \<^verbatim>\<open>%s\<close> conversion applies it.\<close>

fun py_str :: "pyval \<Rightarrow> string" where
  "py_str PNone = ''None''"
| "py_str (PInt i) = str_int i"
| "py_str (PStr s) = s"

text \<open>\<^verbatim>\<open>sep.join(parts)\<close>.\<close>

fun join :: "string \<Rightarrow> string list \<Rightarrow> string" where
  "join sep [] = []"
| "join sep [x] = x"
| "join sep (x # y # ys) = x @ sep @ join sep (y # ys)"

text \<open>
  \<^verbatim>\<open>s.split(c, n)\<close>: the text before the first separator, and what follows it when
  there is one; at most \<open>n\<close> splits are made. \<^verbatim>\<open>s.split(c)\<close> has no limit, and a
  string has no more separators than characters.
\<close>

fun split_first :: "char \<Rightarrow> string \<Rightarrow> string \<times> string option" where
  "split_first c [] = ([], None)"
| "split_first c (x # xs) =
     (if x = c then ([], Some xs)
      else (x # fst (split_first c xs), snd (split_first c xs)))"

fun split_max :: "char \<Rightarrow> nat \<Rightarrow> string \<Rightarrow> string list" where
  "split_max c 0 s = [s]"
| "split_max c (Suc n) s =
     (case snd (split_first c s) of
        None \<Rightarrow> [s]
      | Some rest \<Rightarrow> fst (split_first c s) # split_max c n rest)"

definition split :: "char \<Rightarrow> string \<Rightarrow> string list" where
  "split c s = split_max c (length s) s"

section \<open>Library functions the source calls\<close>

text \<open>
  \<^verbatim>\<open>bytes.decode('utf8')\<close>, \<^verbatim>\<open>urllib.unquote\<close> and the builtin \<^verbatim>\<open>int\<close> on a
  string are not part of the repository: the functions that call them take them as a
  parameter. \<open>None\<close> stands for the exception the library function raises
  (\<^verbatim>\<open>UnicodeDecodeError\<close>, \<^verbatim>\<open>ValueError\<close>).
\<close>

record library =
  utf8_decode :: "string \<Rightarrow> string option"
  urllib_unquote :: "string \<Rightarrow> string"
  int_of_str :: "string \<Rightarrow> int option"

text \<open>The module's own \<^verbatim>\<open>unquote\<close>, which lets \<^verbatim>\<open>None\<close> through.\<close>

definition unquote :: "library \<Rightarrow> string option \<Rightarrow> string option" where
  "unquote L s = (case s of None \<Rightarrow> None | Some t \<Rightarrow> Some (urllib_unquote L t))"

text \<open>
  One library to run the model on plain ASCII packets without percent escapes: decoding
  and unquoting change nothing there, and \<^verbatim>\<open>int\<close> reads a non-empty run of decimal
  digits.
\<close>

fun digits_value :: "string \<Rightarrow> nat \<Rightarrow> nat option" where
  "digits_value [] acc = Some acc"
| "digits_value (c # cs) acc =
     (if c \<in> set ''0123456789''
      then digits_value cs (10 * acc + (of_char c - 48))
      else None)"

definition plain_library :: library where
  "plain_library =
     \<lparr>utf8_decode = Some,
      urllib_unquote = (\<lambda>s. s),
      int_of_str = (\<lambda>s. if s = [] then None else map_option int (digits_value s 0))\<rparr>"

section \<open>PydevdSocket\<close>

text \<open>
  Event loops and futures are objects of \<^verbatim>\<open>ptvsd.futures\<close>; the socket only stores
  them and hands them back, so they are identified by a number. \<open>pipe_w\<close> is what has
  been written to the write end of the pipe, oldest packet first.
\<close>

type_synonym loop = nat
type_synonym future = nat

record PydevdSocket =
  seq :: int
  requests :: "(int, loop \<times> future) dict"
  pipe_w :: "string list"

definition PydevdSocket_init :: PydevdSocket where
  "PydevdSocket_init = \<lparr>seq = 1000000000, requests = [], pipe_w = []\<rparr>"

text \<open>
  What \<^verbatim>\<open>send\<close> does with a packet: it calls the event handler, or it schedules
  \<^verbatim>\<open>fut.set_result\<close> with the triple on the loop stored with the request
  (\<^verbatim>\<open>loop.call_soon_threadsafe\<close>). The packet is decoded first, which can raise; the
  module's \<^verbatim>\<open>unquote\<close> of a decoded string is \<^verbatim>\<open>urllib.unquote\<close> of it. \<^verbatim>\<open>send\<close>
  returns the number of bytes it was given.
\<close>

datatype delivery =
    Event_handler int int string
  | Call_soon_threadsafe loop future "int \<times> int \<times> string"

definition send :: "library \<Rightarrow> string \<Rightarrow> PydevdSocket \<Rightarrow> (error + nat \<times> delivery) \<times> PydevdSocket" where
  "send L data s =
    (case utf8_decode L data of
       None \<Rightarrow> (Inl UnicodeDecodeError, s)
     | Some text \<Rightarrow>
         (case split_max TAB 2 (urllib_unquote L text) of
            [c, q, args] \<Rightarrow>
              (case int_of_str L c of
                 None \<Rightarrow> (Inl ValueError, s)
               | Some cmd_id \<Rightarrow>
                   (case int_of_str L q of
                      None \<Rightarrow> (Inl ValueError, s)
                    | Some sq \<Rightarrow>
                        (case map_of (requests s) sq of
                           None \<Rightarrow> (Inr (length data, Event_handler cmd_id sq args), s)
                         | Some (loop, fut) \<Rightarrow>
                             (Inr (length data, Call_soon_threadsafe loop fut (cmd_id, sq, args)),
                              s\<lparr>requests := AList.delete sq (requests s)\<rparr>))))
          | _ \<Rightarrow> (Inl ValueError, s)))"

text \<open>The packet text \<^verbatim>\<open>"%s\t%s\t%s\n" % (cmd_id, seq, args)\<close>.\<close>

definition packet_text :: "int \<Rightarrow> int \<Rightarrow> pyval \<Rightarrow> string" where
  "packet_text cmd_id sq args =
     str_int cmd_id @ [TAB] @ str_int sq @ [TAB] @ py_str args @ [NEWLINE]"

definition make_packet :: "int \<Rightarrow> pyval \<Rightarrow> PydevdSocket \<Rightarrow> (int \<times> string) \<times> PydevdSocket" where
  "make_packet cmd_id args s =
    ((seq s, packet_text cmd_id (seq s) args), s\<lparr>seq := seq s + 1\<rparr>)"

definition pydevd_notify :: "int \<Rightarrow> pyval \<Rightarrow> PydevdSocket \<Rightarrow> PydevdSocket" where
  "pydevd_notify cmd_id args s =
    (let packet = snd (fst (make_packet cmd_id args s));
         s1 = snd (make_packet cmd_id args s)
     in s1\<lparr>pipe_w := pipe_w s1 @ [packet]\<rparr>)"

text \<open>\<open>fut\<close> is the future that \<^verbatim>\<open>loop.create_future()\<close> returns.\<close>

definition pydevd_request :: "loop \<Rightarrow> future \<Rightarrow> int \<Rightarrow> pyval \<Rightarrow> PydevdSocket \<Rightarrow> future \<times> PydevdSocket" where
  "pydevd_request loop fut cmd_id args s =
    (let sq = fst (fst (make_packet cmd_id args s));
         packet = snd (fst (make_packet cmd_id args s));
         s1 = snd (make_packet cmd_id args s)
     in (fut, s1\<lparr>requests := AList.update sq (loop, fut) (requests s1),
                  pipe_w := pipe_w s1 @ [packet]\<rparr>))"

subsection \<open>Sequences of calls on one socket\<close>

datatype socket_call =
    Notify int pyval
  | Request loop future int pyval
  | Send string

fun perform :: "library \<Rightarrow> socket_call \<Rightarrow> PydevdSocket \<Rightarrow> PydevdSocket" where
  "perform L (Notify cmd_id args) s = pydevd_notify cmd_id args s"
| "perform L (Request loop fut cmd_id args) s = snd (pydevd_request loop fut cmd_id args s)"
| "perform L (Send data) s = snd (send L data s)"

text \<open>The sequence numbers that \<^verbatim>\<open>make_packet\<close> issues, in the order of the calls.\<close>

fun issued :: "library \<Rightarrow> socket_call list \<Rightarrow> PydevdSocket \<Rightarrow> int list" where
  "issued L [] s = []"
| "issued L (Notify cmd_id args # cs) s =
     fst (fst (make_packet cmd_id args s)) # issued L cs (perform L (Notify cmd_id args) s)"
| "issued L (Request loop fut cmd_id args # cs) s =
     fst (fst (make_packet cmd_id args s)) #
       issued L cs (perform L (Request loop fut cmd_id args) s)"
| "issued L (Send data # cs) s = issued L cs (perform L (Send data) s)"

section \<open>VSCodeMessageProcessor\<close>

text \<open>
  The numbers of the pydevd commands are constants of \<^verbatim>\<open>_pydevd_bundle.pydevd_comm\<close>,
  which is not part of the repository: the handlers take them as a parameter.
\<close>

record pydevd_comm =
  CMD_LIST_THREADS :: int
  CMD_THREAD_SUSPEND :: int
  CMD_STEP_INTO :: int
  CMD_STEP_OVER :: int
  CMD_STEP_RETURN :: int
  CMD_GET_VARIABLE :: int
  CMD_SET_BREAK :: int
  CMD_REMOVE_BREAK :: int
  CMD_GET_FRAME :: int
  CMD_STEP_CAUGHT_EXCEPTION :: int

text \<open>The numbers that pydevd gives these commands, to run the model on.\<close>

definition pydevd_numbers :: pydevd_comm where
  "pydevd_numbers =
     \<lparr>CMD_LIST_THREADS = 102, CMD_THREAD_SUSPEND = 105, CMD_STEP_INTO = 107,
      CMD_STEP_OVER = 108, CMD_STEP_RETURN = 109, CMD_GET_VARIABLE = 110, CMD_SET_BREAK = 111,
      CMD_REMOVE_BREAK = 112, CMD_GET_FRAME = 114, CMD_STEP_CAUGHT_EXCEPTION = 137\<rparr>"

text \<open>
  An element of the tree that \<^verbatim>\<open>untangle.parse\<close> returns is used through its
  attributes only: \<^verbatim>\<open>x['name']\<close> is the attribute, or \<^verbatim>\<open>None\<close> when the element has
  none of that name. The handlers that only loop over the children of a name
  (\<^verbatim>\<open>xml.thread\<close>, \<^verbatim>\<open>xml.var\<close>) get them as the list that the loop runs through.
\<close>

type_synonym element = "(string, string) dict"

definition attr :: "element \<Rightarrow> string \<Rightarrow> string option" where
  "attr x name = map_of x name"

text \<open>
  What untangle gives for \<^verbatim>\<open>parent.name\<close>, as \<^verbatim>\<open>xml.thread.frame\<close>. When exactly one
  child has that name it is that child itself, \<open>Only x n\<close> for the element with
  attributes \<open>x\<close> and \<open>n\<close> children of its own; when several children have that name
  it is the list of them; when none has, the access raises \<^verbatim>\<open>AttributeError\<close>.
  \<^verbatim>\<open>len\<close> of an element is the number of its own children, and a loop over an element
  runs once, with the element itself.
\<close>

datatype children = Only element nat | Several "element list"

fun named_children :: "(element \<times> nat) list \<Rightarrow> error + children" where
  "named_children [] = Inl AttributeError"
| "named_children [(x, n)] = Inr (Only x n)"
| "named_children xs = Inr (Several (map fst xs))"

fun py_len :: "children \<Rightarrow> nat" where
  "py_len (Only x n) = n"
| "py_len (Several xs) = length xs"

fun py_iter :: "children \<Rightarrow> element list" where
  "py_iter (Only x n) = [x]"
| "py_iter (Several xs) = xs"

definition py_opt :: "string option \<Rightarrow> pyval" where
  "py_opt x = (case x of None \<Rightarrow> PNone | Some s \<Rightarrow> PStr s)"

text \<open>\<^verbatim>\<open>int(x)\<close> for an attribute: \<^verbatim>\<open>TypeError\<close> on \<^verbatim>\<open>None\<close>, \<^verbatim>\<open>ValueError\<close> on a
  string that is no number.\<close>

definition py_int :: "library \<Rightarrow> string option \<Rightarrow> error + int" where
  "py_int L x =
    (case x of
       None \<Rightarrow> Inl TypeError
     | Some s \<Rightarrow> (case int_of_str L s of None \<Rightarrow> Inl ValueError | Some i \<Rightarrow> Inr i))"

text \<open>\<^verbatim>\<open>bool(x)\<close> for an attribute: false for \<^verbatim>\<open>None\<close> and for the empty string.\<close>

definition py_bool :: "string option \<Rightarrow> bool" where
  "py_bool x = (case x of None \<Rightarrow> False | Some s \<Rightarrow> s \<noteq> [])"

definition startswith :: "string \<Rightarrow> string \<Rightarrow> bool" where
  "startswith s p = (take (length p) s = p)"

subsection \<open>Messages to the IDE\<close>

datatype thread = Thread (thread_id: int) (thread_name: "string option")

datatype stack_frame =
  Stack_frame (frame_id: int) (frame_name: "string option") (frame_path: "string option")
    (frame_line: int) (frame_column: int)

datatype variable =
  Variable (var_name: "string option") (var_type: "string option") (var_value: "string option")
    (variablesReference: "int option")

datatype breakpoint = Breakpoint (bp_id: int) (bp_verified: bool) (bp_line: int)

datatype scope = Scope (scope_name: string) (scope_expensive: bool) (scope_reference: int)

datatype body =
    No_body
  | Threads "thread list"
  | Stack_trace "stack_frame list" nat
  | Scopes "scope list"
  | Variables "variable list"
  | Breakpoints "breakpoint list"

text \<open>\<^verbatim>\<open>send_response(request, **body)\<close> and \<^verbatim>\<open>send_event(name, **body)\<close> belong to
  \<^verbatim>\<open>ptvsd.ipcjson\<close>; the model records the messages in the order they are sent. A
  request is identified by a number.\<close>

datatype message =
    Response nat body
  | Event string "(string \<times> pyval) list"

subsection \<open>The state of the processor\<close>

text \<open>The fields that the handlers below read or write (\<^verbatim>\<open>active_exceptions\<close> and
  \<^verbatim>\<open>next_var_ref\<close> are used by none of them).\<close>

record VSCodeMessageProcessor =
  pydevd :: PydevdSocket
  stack_traces :: "(pyval, children) dict"
  thread_map :: "pyval IDMap"
  frame_map :: "pyval list IDMap"
  var_map :: "pyval list IDMap"
  bp_map :: "pyval list IDMap"
  event_loop :: loop
  sent :: "message list"

definition VSCodeMessageProcessor_init :: "loop \<Rightarrow> VSCodeMessageProcessor" where
  "VSCodeMessageProcessor_init l =
     \<lparr>pydevd = PydevdSocket_init, stack_traces = [], thread_map = IDMap_init,
      frame_map = IDMap_init, var_map = IDMap_init, bp_map = IDMap_init, event_loop = l,
      sent = []\<rparr>"

text \<open>The processor's own \<^verbatim>\<open>pydevd_notify\<close> and \<^verbatim>\<open>pydevd_request\<close>, which pass the call
  on to the socket (the request with \<^verbatim>\<open>self.loop\<close>).\<close>

definition proc_pydevd_notify :: "int \<Rightarrow> pyval \<Rightarrow> VSCodeMessageProcessor \<Rightarrow> VSCodeMessageProcessor" where
  "proc_pydevd_notify cmd_id args st = st\<lparr>pydevd := pydevd_notify cmd_id args (pydevd st)\<rparr>"

definition proc_pydevd_request :: "future \<Rightarrow> int \<Rightarrow> pyval \<Rightarrow> VSCodeMessageProcessor \<Rightarrow> VSCodeMessageProcessor" where
  "proc_pydevd_request fut cmd_id args st =
     st\<lparr>pydevd := snd (pydevd_request (event_loop st) fut cmd_id args (pydevd st))\<rparr>"

definition send_response :: "nat \<Rightarrow> body \<Rightarrow> VSCodeMessageProcessor \<Rightarrow> VSCodeMessageProcessor" where
  "send_response req b st = st\<lparr>sent := sent st @ [Response req b]\<rparr>"

definition send_event :: "string \<Rightarrow> (string \<times> pyval) list \<Rightarrow> VSCodeMessageProcessor \<Rightarrow> VSCodeMessageProcessor" where
  "send_event name b st = st\<lparr>sent := sent st @ [Event name b]\<rparr>"

subsection \<open>Request handlers\<close>

text \<open>
  A handler gets the request (its number) and the arguments it reads from
  \<^verbatim>\<open>args\<close>, already of the type the IDE sends them in. It returns \<open>Inl\<close> of the
  exception when it raises, and the processor as the handler leaves it. A handler that
  waits for a reply of pydevd (\<^verbatim>\<open>yield self.pydevd_request(...)\<close>) is two functions:
  what it does up to the \<^verbatim>\<open>yield\<close>, and what it does with the decoded reply.
\<close>

definition on_threads_request :: "pydevd_comm \<Rightarrow> future \<Rightarrow> VSCodeMessageProcessor \<Rightarrow> VSCodeMessageProcessor" where
  "on_threads_request C fut st = proc_pydevd_request fut (CMD_LIST_THREADS C) (PStr []) st"

fun threads_loop :: "library \<Rightarrow> element list \<Rightarrow> pyval IDMap \<Rightarrow> thread list \<Rightarrow> (error + thread list) \<times> pyval IDMap" where
  "threads_loop L [] tm threads = (Inr threads, tm)"
| "threads_loop L (xthread # xthreads) tm threads =
     (case fst (to_vscode (py_opt (attr xthread ''id'')) True tm) of
        Inl e \<Rightarrow> (Inl e, snd (to_vscode (py_opt (attr xthread ''id'')) True tm))
      | Inr tid \<Rightarrow>
          threads_loop L xthreads (snd (to_vscode (py_opt (attr xthread ''id'')) True tm))
            (case unquote L (attr xthread ''name'') of
               None \<Rightarrow> threads @ [Thread tid None]
             | Some name \<Rightarrow>
                 if \<not> (name \<noteq> [] \<and> startswith name ''pydevd.'')
                 then threads @ [Thread tid (Some name)]
                 else threads))"

definition on_threads_reply :: "library \<Rightarrow> nat \<Rightarrow> element list \<Rightarrow> VSCodeMessageProcessor \<Rightarrow> (error + unit) \<times> VSCodeMessageProcessor" where
  "on_threads_reply L req xthreads st =
    (case fst (threads_loop L xthreads (thread_map st) []) of
       Inl e \<Rightarrow> (Inl e, st\<lparr>thread_map := snd (threads_loop L xthreads (thread_map st) [])\<rparr>)
     | Inr threads \<Rightarrow>
         (Inr (), send_response req (Threads threads)
            (st\<lparr>thread_map := snd (threads_loop L xthreads (thread_map st) [])\<rparr>)))"

definition on_pause :: "pydevd_comm \<Rightarrow> nat \<Rightarrow> int \<Rightarrow> VSCodeMessageProcessor \<Rightarrow> (error + unit) \<times> VSCodeMessageProcessor" where
  "on_pause C req vsc_tid st =
    (if vsc_tid = 0 then
       (Inr (), send_response req No_body
          (fold (\<lambda>pyd_tid. proc_pydevd_notify (CMD_THREAD_SUSPEND C) pyd_tid)
             (pydevd_ids (thread_map st)) st))
     else
       (case to_pydevd (thread_map st) vsc_tid of
          Inl e \<Rightarrow> (Inl e, st)
        | Inr pyd_tid \<Rightarrow>
            (Inr (), send_response req No_body
               (proc_pydevd_notify (CMD_THREAD_SUSPEND C) pyd_tid st))))"

text \<open>One packet of command \<open>cmd_id\<close> for each of the given arguments, in their order,
  numbered from \<open>sq\<close> on: what a loop of notifications writes.\<close>

fun notifications :: "int \<Rightarrow> int \<Rightarrow> pyval list \<Rightarrow> string list" where
  "notifications cmd_id sq [] = []"
| "notifications cmd_id sq (a # as) = packet_text cmd_id sq a # notifications cmd_id (sq + 1) as"

fun remove_breakpoints :: "pydevd_comm \<Rightarrow> string \<Rightarrow> (pyval list \<times> int) list \<Rightarrow> VSCodeMessageProcessor \<Rightarrow> (error + unit) \<times> VSCodeMessageProcessor" where
  "remove_breakpoints C path [] st = (Inr (), st)"
| "remove_breakpoints C path ((pyd_bpid, vsc_bpid) # rest) st =
     (let st1 = proc_pydevd_notify (CMD_REMOVE_BREAK C)
                  (PStr (''python-line'' @ [TAB] @ path @ [TAB] @ str_int vsc_bpid)) st;
          removed = remove (Some pyd_bpid) (Some vsc_bpid) (bp_map st1)
      in case fst removed of
           Inl e \<Rightarrow> (Inl e, st1\<lparr>bp_map := snd removed\<rparr>)
         | Inr u \<Rightarrow> remove_breakpoints C path rest (st1\<lparr>bp_map := snd removed\<rparr>))"

fun set_breakpoints :: "pydevd_comm \<Rightarrow> string \<Rightarrow> int list \<Rightarrow> VSCodeMessageProcessor \<Rightarrow> breakpoint list \<Rightarrow> breakpoint list \<times> VSCodeMessageProcessor" where
  "set_breakpoints C path [] st bps = (bps, st)"
| "set_breakpoints C path (line # src_bps) st bps =
     (let added = add (Callable (\<lambda>vsc_bpid. [PStr path, PInt vsc_bpid])) (bp_map st);
          vsc_bpid = fst added;
          st1 = st\<lparr>bp_map := snd added\<rparr>;
          st2 = proc_pydevd_notify (CMD_SET_BREAK C)
                  (PStr (str_int vsc_bpid @ [TAB] @ ''python-line'' @ [TAB] @ path @ [TAB] @
                     str_int line @ [TAB] @ ''None'' @ [TAB] @ ''None'' @ [TAB] @ ''None'')) st1
      in set_breakpoints C path src_bps st2 (bps @ [Breakpoint vsc_bpid True line]))"

definition on_setBreakpoints :: "pydevd_comm \<Rightarrow> nat \<Rightarrow> string \<Rightarrow> int list \<Rightarrow> VSCodeMessageProcessor \<Rightarrow> (error + unit) \<times> VSCodeMessageProcessor" where
  "on_setBreakpoints C req path src_bps st =
    (case fst (remove_breakpoints C path (pairs (bp_map st)) st) of
       Inl e \<Rightarrow> (Inl e, snd (remove_breakpoints C path (pairs (bp_map st)) st))
     | Inr u \<Rightarrow>
         (Inr (),
          send_response req
            (Breakpoints
               (fst (set_breakpoints C path src_bps
                       (snd (remove_breakpoints C path (pairs (bp_map st)) st)) [])))
            (snd (set_breakpoints C path src_bps
                    (snd (remove_breakpoints C path (pairs (bp_map st)) st)) []))))"

subsection \<open>stackTrace\<close>

fun stack_frames_loop :: "library \<Rightarrow> pyval \<Rightarrow> element list \<Rightarrow> int \<Rightarrow> int \<Rightarrow> pyval list IDMap \<Rightarrow> stack_frame list \<Rightarrow> (error + stack_frame list) \<times> pyval list IDMap" where
  "stack_frames_loop L tid [] startFrame levels fm stackFrames = (Inr stackFrames, fm)"
| "stack_frames_loop L tid (xframe # xframes) startFrame levels fm stackFrames =
     (if startFrame > 0 then
        stack_frames_loop L tid xframes (startFrame - 1) levels fm stackFrames
      else if levels \<le> 0 then (Inr stackFrames, fm)
      else
        (case py_int L (attr xframe ''id'') of
           Inl e \<Rightarrow> (Inl e, fm)
         | Inr pyd_fid \<Rightarrow>
             (case fst (to_vscode [tid, PInt pyd_fid] True fm) of
                Inl e \<Rightarrow> (Inl e, snd (to_vscode [tid, PInt pyd_fid] True fm))
              | Inr fid \<Rightarrow>
                  (case py_int L (attr xframe ''line'') of
                     Inl e \<Rightarrow> (Inl e, snd (to_vscode [tid, PInt pyd_fid] True fm))
                   | Inr line \<Rightarrow>
                       stack_frames_loop L tid xframes startFrame (levels - 1)
                         (snd (to_vscode [tid, PInt pyd_fid] True fm))
                         (stackFrames @
                            [Stack_frame fid (unquote L (attr xframe ''name''))
                               (unquote L (attr xframe ''file'')) line 0])))))"

definition on_stackTrace :: "library \<Rightarrow> nat \<Rightarrow> int \<Rightarrow> int \<Rightarrow> int \<Rightarrow> VSCodeMessageProcessor \<Rightarrow> (error + unit) \<times> VSCodeMessageProcessor" where
  "on_stackTrace L req threadId startFrame levels st =
    (case to_pydevd (thread_map st) threadId of
       Inl e \<Rightarrow> (Inl e, st)
     | Inr tid \<Rightarrow>
         (case map_of (stack_traces st) tid of
            None \<Rightarrow> (Inl KeyError, st)
          | Some xframes \<Rightarrow>
              (let totalFrames = py_len xframes;
                   levels = (if levels = 0 then int totalFrames else levels);
                   looped = stack_frames_loop L tid (py_iter xframes) startFrame levels
                              (frame_map st) [];
                   st1 = st\<lparr>frame_map := snd looped\<rparr>
               in case fst looped of
                    Inl e \<Rightarrow> (Inl e, st1)
                  | Inr stackFrames \<Rightarrow>
                      (Inr (), send_response req (Stack_trace stackFrames totalFrames) st1))))"

text \<open>
  What the claims say of a frame of the response: it shows the cached frame \<open>xframe\<close> of
  thread \<open>tid\<close> when its id is mapped to \<open>(tid, int(xframe['id']))\<close> in the frame map and
  its other fields are those of \<open>xframe\<close>.
\<close>

definition shows_frame :: "library \<Rightarrow> pyval \<Rightarrow> pyval list IDMap \<Rightarrow> element \<Rightarrow> stack_frame \<Rightarrow> bool" where
  "shows_frame L tid fm xframe f \<longleftrightarrow>
     (\<exists>pyd_fid line.
        py_int L (attr xframe ''id'') = Inr pyd_fid \<and>
        py_int L (attr xframe ''line'') = Inr line \<and>
        to_pydevd fm (frame_id f) = Inr [tid, PInt pyd_fid] \<and>
        f = Stack_frame (frame_id f) (unquote L (attr xframe ''name''))
              (unquote L (attr xframe ''file'')) line 0)"

text \<open>A cached frame can be read when its \<^verbatim>\<open>id\<close> and \<^verbatim>\<open>line\<close> attributes are numbers.\<close>

definition readable_frame :: "library \<Rightarrow> element \<Rightarrow> bool" where
  "readable_frame L xframe \<longleftrightarrow>
     \<not> isl (py_int L (attr xframe ''id'')) \<and> \<not> isl (py_int L (attr xframe ''line''))"

subsection \<open>scopes\<close>

text \<open>\<^verbatim>\<open>pyd_tid, pyd_fid = self.frame_map.to_pydevd(vsc_fid)\<close> unpacks a pair and raises
  \<^verbatim>\<open>ValueError\<close> on a tuple of another length.\<close>

definition on_scopes :: "nat \<Rightarrow> int \<Rightarrow> VSCodeMessageProcessor \<Rightarrow> (error + unit) \<times> VSCodeMessageProcessor" where
  "on_scopes req vsc_fid st =
    (case to_pydevd (frame_map st) vsc_fid of
       Inl e \<Rightarrow> (Inl e, st)
     | Inr [pyd_tid, pyd_fid] \<Rightarrow>
         (let pyd_var = [pyd_tid, pyd_fid, PStr ''FRAME''];
              st1 = st\<lparr>var_map := snd (to_vscode pyd_var True (var_map st))\<rparr>
          in case fst (to_vscode pyd_var True (var_map st)) of
               Inl e \<Rightarrow> (Inl e, st1)
             | Inr vsc_var \<Rightarrow>
                 (Inr (), send_response req (Scopes [Scope ''Locals'' False vsc_var]) st1))
     | Inr _ \<Rightarrow> (Inl ValueError, st))"

subsection \<open>variables\<close>

text \<open>Up to the \<^verbatim>\<open>yield\<close>: the handler returns the pydevd id of the container, which it
  keeps for the second half.\<close>

definition on_variables_request :: "pydevd_comm \<Rightarrow> future \<Rightarrow> int \<Rightarrow> VSCodeMessageProcessor \<Rightarrow> (error + pyval list) \<times> VSCodeMessageProcessor" where
  "on_variables_request C fut vsc_var st =
    (case to_pydevd (var_map st) vsc_var of
       Inl e \<Rightarrow> (Inl e, st)
     | Inr pyd_var \<Rightarrow>
         (let cmd = (if length pyd_var = 3 then CMD_GET_FRAME C else CMD_GET_VARIABLE C)
          in (Inr pyd_var,
              proc_pydevd_request fut cmd (PStr (join [TAB] (map py_str pyd_var))) st)))"

fun variables_loop :: "library \<Rightarrow> pyval list \<Rightarrow> element list \<Rightarrow> pyval list IDMap \<Rightarrow> variable list \<Rightarrow> (error + variable list) \<times> pyval list IDMap" where
  "variables_loop L pyd_var [] vm vars = (Inr vars, vm)"
| "variables_loop L pyd_var (xvar # xvars) vm vars =
     (let name = unquote L (attr xvar ''name'');
          type = unquote L (attr xvar ''type'');
          val = unquote L (attr xvar ''value'')
      in if py_bool (attr xvar ''isContainer'') then
           (let pyd_child = pyd_var @ [py_opt name]
            in case fst (to_vscode pyd_child True vm) of
                 Inl e \<Rightarrow> (Inl e, snd (to_vscode pyd_child True vm))
               | Inr ref \<Rightarrow>
                   variables_loop L pyd_var xvars (snd (to_vscode pyd_child True vm))
                     (vars @ [Variable name type val (Some ref)]))
         else variables_loop L pyd_var xvars vm (vars @ [Variable name type val None]))"

definition on_variables_reply :: "library \<Rightarrow> nat \<Rightarrow> pyval list \<Rightarrow> element list \<Rightarrow> VSCodeMessageProcessor \<Rightarrow> (error + unit) \<times> VSCodeMessageProcessor" where
  "on_variables_reply L req pyd_var xvars st =
    (let looped = variables_loop L pyd_var xvars (var_map st) [];
         st1 = st\<lparr>var_map := snd looped\<rparr>
     in case fst looped of
          Inl e \<Rightarrow> (Inl e, st1)
        | Inr vars \<Rightarrow> (Inr (), send_response req (Variables vars) st1))"

text \<open>
  What the claims say of a variable of the response. It carries the name, type and value
  of \<open>xvar\<close>. When \<open>xvar\<close> is marked as a container (\<^verbatim>\<open>bool(xvar['isContainer'])\<close>), its
  \<^verbatim>\<open>variablesReference\<close> is an id that the variable map \<open>vm'\<close> after the request maps to
  the id of the parent with the name appended; that is the id the child had in the map
  \<open>vm\<close> before the request when it had one, and otherwise an id that \<open>vm\<close> had not
  handed out yet. A variable that is no container carries no reference.
\<close>

definition shows_variable :: "library \<Rightarrow> pyval list \<Rightarrow> pyval list IDMap \<Rightarrow> pyval list IDMap \<Rightarrow> element \<Rightarrow> variable \<Rightarrow> bool" where
  "shows_variable L pyd_var vm vm' xvar v \<longleftrightarrow>
     var_name v = unquote L (attr xvar ''name'') \<and>
     var_type v = unquote L (attr xvar ''type'') \<and>
     var_value v = unquote L (attr xvar ''value'') \<and>
     (if py_bool (attr xvar ''isContainer'') then
        (\<exists>ref. variablesReference v = Some ref \<and>
           to_pydevd vm' ref = Inr (pyd_var @ [py_opt (unquote L (attr xvar ''name''))]) \<and>
           (case map_of (pydevd_to_vscode vm) (pyd_var @ [py_opt (unquote L (attr xvar ''name''))]) of
              Some known \<Rightarrow> ref = known
            | None \<Rightarrow> next_id vm \<le> ref))
      else variablesReference v = None)"

text \<open>A map \<open>vm'\<close> extends a map \<open>vm\<close> when it is well formed, keeps the pairs of \<open>vm\<close>
  and has given out only new ids since.\<close>

definition extends :: "'k IDMap \<Rightarrow> 'k IDMap \<Rightarrow> bool" where
  "extends vm vm' \<longleftrightarrow>
     IDMap_inv vm' \<and> next_id vm \<le> next_id vm' \<and>
     (\<forall>k v. map_of (pydevd_to_vscode vm) k = Some v \<longrightarrow> map_of (pydevd_to_vscode vm') k = Some v) \<and>
     (\<forall>k v. map_of (pydevd_to_vscode vm') k = Some v \<longrightarrow>
        map_of (pydevd_to_vscode vm) k = Some v \<or> next_id vm \<le> v)"

subsection \<open>Handlers of pydevd events\<close>

text \<open>
  \<^verbatim>\<open>on_pydevd_thread_suspend\<close> gets the \<^verbatim>\<open>thread\<close> element of the decoded event and
  its \<^verbatim>\<open>frame\<close> children, each with the number of children it has itself; what it
  caches is \<^verbatim>\<open>xml.thread.frame\<close>.
\<close>

definition on_pydevd_thread_suspend :: "library \<Rightarrow> pydevd_comm \<Rightarrow> int \<Rightarrow> element \<Rightarrow> (element \<times> nat) list \<Rightarrow> VSCodeMessageProcessor \<Rightarrow> (error + unit) \<times> VSCodeMessageProcessor" where
  "on_pydevd_thread_suspend L C sq xthread frames st =
    (let tid = py_opt (attr xthread ''id'')
     in case py_int L (attr xthread ''stop_reason'') of
          Inl e \<Rightarrow> (Inl e, st)
        | Inr reason \<Rightarrow>
            (let reason =
                   (if reason \<in> set [CMD_STEP_INTO C, CMD_STEP_OVER C, CMD_STEP_RETURN C]
                    then ''step''
                    else if reason = CMD_STEP_CAUGHT_EXCEPTION C then ''exception''
                    else if reason = CMD_SET_BREAK C then ''breakpoint''
                    else ''pause'')
             in case named_children frames of
                  Inl e \<Rightarrow> (Inl e, st)
                | Inr xframes \<Rightarrow>
                    (let st1 = st\<lparr>stack_traces := AList.update tid xframes (stack_traces st)\<rparr>;
                         st2 = st1\<lparr>thread_map := snd (to_vscode tid True (thread_map st1))\<rparr>
                     in case fst (to_vscode tid True (thread_map st1)) of
                          Inl e \<Rightarrow> (Inl e, st2)
                        | Inr vsc_tid \<Rightarrow>
                            (Inr (),
                             send_event ''stopped''
                               [(''reason'', PStr reason), (''threadId'', PInt vsc_tid)] st2))))"

text \<open>\<^verbatim>\<open>pyd_id[0] == pyd_tid\<close> for a pydevd id that has a first component.\<close>

definition scoped_to :: "pyval \<Rightarrow> pyval list \<Rightarrow> bool" where
  "scoped_to pyd_tid pyd_id = (case pyd_id of [] \<Rightarrow> False | first # _ \<Rightarrow> first = pyd_tid)"

text \<open>
  The loop that \<^verbatim>\<open>on_pydevd_thread_run\<close> runs over \<^verbatim>\<open>frame_map.pairs()\<close> and then,
  with the same body, over \<^verbatim>\<open>var_map.pairs()\<close>; indexing an empty tuple raises
  \<^verbatim>\<open>IndexError\<close>.
\<close>

fun remove_scoped :: "pyval \<Rightarrow> (pyval list \<times> int) list \<Rightarrow> pyval list IDMap \<Rightarrow> (error + unit) \<times> pyval list IDMap" where
  "remove_scoped pyd_tid [] m = (Inr (), m)"
| "remove_scoped pyd_tid ((pyd_id, vsc_id) # rest) m =
     (if pyd_id = [] then (Inl IndexError, m)
      else if scoped_to pyd_tid pyd_id then
        (case fst (remove (Some pyd_id) (Some vsc_id) m) of
           Inl e \<Rightarrow> (Inl e, snd (remove (Some pyd_id) (Some vsc_id) m))
         | Inr u \<Rightarrow> remove_scoped pyd_tid rest (snd (remove (Some pyd_id) (Some vsc_id) m)))
      else remove_scoped pyd_tid rest m)"

definition on_pydevd_thread_run :: "int \<Rightarrow> string \<Rightarrow> VSCodeMessageProcessor \<Rightarrow> (error + unit) \<times> VSCodeMessageProcessor" where
  "on_pydevd_thread_run sq args st =
    (case split TAB args of
       [pyd_tid, reason] \<Rightarrow>
         (let st1 = st\<lparr>thread_map := snd (to_vscode (PStr pyd_tid) True (thread_map st))\<rparr>
          in case fst (to_vscode (PStr pyd_tid) True (thread_map st)) of
               Inl e \<Rightarrow> (Inl e, st1)
             | Inr vsc_tid \<Rightarrow>
                 if map_of (stack_traces st1) (PStr pyd_tid) = None then (Inl KeyError, st1)
                 else
                   let st2 = st1\<lparr>stack_traces := AList.delete (PStr pyd_tid) (stack_traces st1)\<rparr>;
                       frames = remove_scoped (PStr pyd_tid) (pairs (frame_map st2)) (frame_map st2);
                       st3 = st2\<lparr>frame_map := snd frames\<rparr>
                   in case fst frames of
                        Inl e \<Rightarrow> (Inl e, st3)
                      | Inr u \<Rightarrow>
                          let vars = remove_scoped (PStr pyd_tid) (pairs (var_map st3)) (var_map st3);
                              st4 = st3\<lparr>var_map := snd vars\<rparr>
                          in case fst vars of
                               Inl e \<Rightarrow> (Inl e, st4)
                             | Inr u \<Rightarrow>
                                 (Inr (), send_event ''continued'' [(''threadId'', PInt vsc_tid)] st4))
     | _ \<Rightarrow> (Inl ValueError, st))"

subsection \<open>A session to run the handlers on\<close>

text \<open>
  Two suspended threads, \<^verbatim>\<open>7\<close> with two frames and \<^verbatim>\<open>8\<close> with one; the IDE has
  asked for the top frame of each and for its variables, and has opened the container
  \<^verbatim>\<open>x\<close> in the frame of thread \<^verbatim>\<open>7\<close>.
\<close>

definition suspended_session :: VSCodeMessageProcessor where
  "suspended_session =
     (VSCodeMessageProcessor_init 0)
       \<lparr>stack_traces :=
          [(PStr ''7'',
            Several
              [[(''id'', ''1''), (''name'', ''f''), (''file'', ''a.py''), (''line'', ''3'')],
               [(''id'', ''2''), (''name'', ''main''), (''file'', ''a.py''), (''line'', ''9'')]]),
           (PStr ''8'',
            Only [(''id'', ''1''), (''name'', ''g''), (''file'', ''b.py''), (''line'', ''5'')] 0)],
        thread_map := calls [ToVscode (PStr ''7'') True, ToVscode (PStr ''8'') True] IDMap_init,
        frame_map :=
          calls [ToVscode [PStr ''7'', PInt 1] True, ToVscode [PStr ''8'', PInt 1] True] IDMap_init,
        var_map :=
          calls [ToVscode [PStr ''7'', PInt 1, PStr ''FRAME''] True,
                 ToVscode [PStr ''8'', PInt 1, PStr ''FRAME''] True,
                 ToVscode [PStr ''7'', PInt 1, PStr ''FRAME'', PStr ''x''] True] IDMap_init\<rparr>"


subsection \<open>Well-formed processors\<close>

text \<open>
  A map of frames or of variables is well formed and has no empty tuple as a pydevd id;
  in a well-formed processor the thread map and the breakpoint map are well formed too.
  Every handler keeps this, whatever it is called with.
\<close>

definition tuple_map :: "pyval list IDMap \<Rightarrow> bool" where
  "tuple_map m \<longleftrightarrow> IDMap_inv m \<and> (\<forall>k \<in> set (pydevd_ids m). k \<noteq> [])"

definition well_formed :: "VSCodeMessageProcessor \<Rightarrow> bool" where
  "well_formed st \<longleftrightarrow>
     IDMap_inv (thread_map st) \<and> tuple_map (frame_map st) \<and>
     tuple_map (var_map st) \<and> IDMap_inv (bp_map st)"

text \<open>The handlers modelled here, as calls that the IDE and pydevd make in any order.\<close>

datatype handler_call =
    Threads_request future
  | Threads_reply nat "element list"
  | Pause nat int
  | StackTrace nat int int int
  | Scopes_request nat int
  | Variables_request future int
  | Variables_reply nat "pyval list" "element list"
  | SetBreakpoints nat string "int list"
  | Thread_suspend int element "(element \<times> nat) list"
  | Thread_run int string

fun handle :: "library \<Rightarrow> pydevd_comm \<Rightarrow> handler_call \<Rightarrow> VSCodeMessageProcessor \<Rightarrow> VSCodeMessageProcessor" where
  "handle L C (Threads_request fut) st = on_threads_request C fut st"
| "handle L C (Threads_reply req xthreads) st = snd (on_threads_reply L req xthreads st)"
| "handle L C (Pause req vsc_tid) st = snd (on_pause C req vsc_tid st)"
| "handle L C (StackTrace req threadId startFrame levels) st =
     snd (on_stackTrace L req threadId startFrame levels st)"
| "handle L C (Scopes_request req vsc_fid) st = snd (on_scopes req vsc_fid st)"
| "handle L C (Variables_request fut vsc_var) st = snd (on_variables_request C fut vsc_var st)"
| "handle L C (Variables_reply req pyd_var xvars) st =
     snd (on_variables_reply L req pyd_var xvars st)"
| "handle L C (SetBreakpoints req path src_bps) st = snd (on_setBreakpoints C req path src_bps st)"
| "handle L C (Thread_suspend sq xthread frames) st =
     snd (on_pydevd_thread_suspend L C sq xthread frames st)"
| "handle L C (Thread_run sq args) st = snd (on_pydevd_thread_run sq args st)"

fun handle_all :: "library \<Rightarrow> pydevd_comm \<Rightarrow> handler_call list \<Rightarrow> VSCodeMessageProcessor \<Rightarrow> VSCodeMessageProcessor" where
  "handle_all L C [] st = st"
| "handle_all L C (c # cs) st = handle_all L C cs (handle L C c st)"

section \<open>Properties of IDMap\<close>

lemma map_of_eq_None_keys: "map_of d k = None \<longleftrightarrow> k \<notin> fst ` set d"
  by (simp add: map_of_eq_None_iff)

lemmas idmap_eval = add_def to_vscode_def to_pydevd_def remove_def IDMap_init_def Let_def

lemma IDMap_inv_init: "IDMap_inv IDMap_init"
  by (simp add: IDMap_inv_def IDMap_init_def)

lemma IDMap_inv_add:
  assumes "IDMap_inv m"
    and "map_of (pydevd_to_vscode m) (case src of Callable f \<Rightarrow> f (next_id m) | Given k \<Rightarrow> k) = None"
  shows "IDMap_inv (snd (add src m))"
proof -
  let ?p = "case src of Callable f \<Rightarrow> f (next_id m) | Given k \<Rightarrow> k"
  have fresh: "map_of (vscode_to_pydevd m) (next_id m) = None"
    using assms(1) unfolding IDMap_inv_def
    by (metis less_irrefl not_Some_eq)
  have nov: "\<And>e. map_of (vscode_to_pydevd m) e \<noteq> Some ?p"
    using assms unfolding IDMap_inv_def by (metis option.distinct(1))
  have nop: "\<And>b. map_of (pydevd_to_vscode m) b \<noteq> Some (next_id m)"
    using assms(1) fresh unfolding IDMap_inv_def by (metis option.distinct(1))
  have "distinct (map fst (vscode_to_pydevd (snd (add src m))))"
    and "distinct (map fst (pydevd_to_vscode (snd (add src m))))"
    using assms(1) unfolding IDMap_inv_def add_def Let_def
    by (simp_all add: distinct_update)
  moreover have "map_of (vscode_to_pydevd (snd (add src m))) e = Some b \<longleftrightarrow>
      map_of (pydevd_to_vscode (snd (add src m))) b = Some e" for e b
    using assms(1) fresh nov nop assms(2) unfolding IDMap_inv_def add_def Let_def
    by (simp add: update_conv')
  moreover have "map_of (vscode_to_pydevd (snd (add src m))) e = Some b \<Longrightarrow>
      e < next_id (snd (add src m))" for e b
    using assms(1) unfolding IDMap_inv_def add_def Let_def
    by (fastforce simp: update_conv' split: if_splits)
  ultimately show ?thesis
    unfolding IDMap_inv_def by blast
qed

lemma IDMap_inv_delete:
  assumes "IDMap_inv m" and "map_of (pydevd_to_vscode m) p = Some v"
  shows "IDMap_inv (m\<lparr>vscode_to_pydevd := AList.delete v (vscode_to_pydevd m),
                       pydevd_to_vscode := AList.delete p (pydevd_to_vscode m)\<rparr>)"
proof -
  have vp: "map_of (vscode_to_pydevd m) v = Some p"
    using assms unfolding IDMap_inv_def by blast
  have inj1: "\<And>e. map_of (vscode_to_pydevd m) e = Some p \<Longrightarrow> e = v"
    using assms unfolding IDMap_inv_def by (metis option.inject)
  have inj2: "\<And>b. map_of (pydevd_to_vscode m) b = Some v \<Longrightarrow> b = p"
    using assms vp unfolding IDMap_inv_def by (metis option.inject)
  show ?thesis
    using assms(1) inj1 inj2 unfolding IDMap_inv_def
    by (simp add: distinct_delete delete_conv') blast
qed

lemma remove_mapped:
  assumes "IDMap_inv m" and "map_of (pydevd_to_vscode m) p = Some v"
    and "po = None \<or> po = Some p" and "vo = None \<or> vo = Some v" and "po \<noteq> None \<or> vo \<noteq> None"
  shows "remove po vo m =
    (Inr (), m\<lparr>vscode_to_pydevd := AList.delete v (vscode_to_pydevd m),
                pydevd_to_vscode := AList.delete p (pydevd_to_vscode m)\<rparr>)"
proof -
  have vp: "map_of (vscode_to_pydevd m) v = Some p"
    using assms(1,2) unfolding IDMap_inv_def by blast
  show ?thesis
    using assms(2-) vp by (auto simp: remove_def Let_def)
qed

lemma remove_cases:
  assumes "IDMap_inv m" and "as_used (Remove po vo) m"
  shows "snd (remove po vo m) = m \<or>
    (\<exists>p v. map_of (pydevd_to_vscode m) p = Some v \<and>
       remove po vo m =
         (Inr (), m\<lparr>vscode_to_pydevd := AList.delete v (vscode_to_pydevd m),
                     pydevd_to_vscode := AList.delete p (pydevd_to_vscode m)\<rparr>))"
proof (cases po)
  case None
  note pn = this
  show ?thesis
  proof (cases vo)
    case None
    with pn show ?thesis by (simp add: remove_def)
  next
    case (Some v)
    show ?thesis
    proof (cases "map_of (vscode_to_pydevd m) v")
      case None
      with pn Some show ?thesis by (simp add: remove_def)
    next
      case (Some p)
      then have "map_of (pydevd_to_vscode m) p = Some v"
        using assms(1) unfolding IDMap_inv_def by blast
      from this remove_mapped [OF assms(1) this, of po vo] pn \<open>vo = Some v\<close>
      show ?thesis by blast
    qed
  qed
next
  case (Some p)
  note ps = this
  show ?thesis
  proof (cases vo)
    case None
    show ?thesis
    proof (cases "map_of (pydevd_to_vscode m) p")
      case None
      with ps \<open>vo = None\<close> show ?thesis by (simp add: remove_def)
    next
      case (Some v)
      from this remove_mapped [OF assms(1) this, of po vo] ps \<open>vo = None\<close>
      show ?thesis by blast
    qed
  next
    case (Some v)
    with ps assms(2) have "map_of (pydevd_to_vscode m) p = Some v" by simp
    from this remove_mapped [OF assms(1) this, of po vo] ps Some
    show ?thesis by blast
  qed
qed

lemma IDMap_inv_remove:
  assumes "IDMap_inv m" and "as_used (Remove po vo) m"
  shows "IDMap_inv (snd (remove po vo m))"
  using remove_cases [OF assms] IDMap_inv_delete [OF assms(1)] assms(1)
  by (elim disjE exE conjE) simp_all

lemma IDMap_inv_to_vscode:
  assumes "IDMap_inv m"
  shows "IDMap_inv (snd (to_vscode p autogen m))"
proof (cases "map_of (pydevd_to_vscode m) p")
  case None
  then have "IDMap_inv (snd (add (Given p) m))"
    using assms by (intro IDMap_inv_add) simp_all
  with None assms show ?thesis by (simp add: to_vscode_def)
next
  case (Some v)
  with assms show ?thesis by (simp add: to_vscode_def)
qed

lemma IDMap_inv_call: "IDMap_inv m \<Longrightarrow> as_used c m \<Longrightarrow> IDMap_inv (call c m)"
proof (cases c)
  case (Add src)
  assume "IDMap_inv m" "as_used c m"
  with Add show ?thesis by (simp add: IDMap_inv_add)
next
  case (Remove po vo)
  assume "IDMap_inv m" "as_used c m"
  with Remove show ?thesis by (simp add: IDMap_inv_remove)
next
  case (ToVscode p autogen)
  assume "IDMap_inv m" "as_used c m"
  with ToVscode show ?thesis by (simp add: IDMap_inv_to_vscode)
qed

lemma IDMap_inv_calls: "IDMap_inv m \<Longrightarrow> all_as_used cs m \<Longrightarrow> IDMap_inv (calls cs m)"
  by (induction cs arbitrary: m) (simp_all add: IDMap_inv_call)

lemma all_as_used_take: "all_as_used cs m \<Longrightarrow> all_as_used (take n cs) m"
proof (induction cs arbitrary: n m)
  case Nil
  then show ?case by simp
next
  case (Cons c cs)
  then show ?case by (cases n) simp_all
qed

lemma to_vscode_no_autogen:
  "fst (to_vscode b False m) = Inr e \<longleftrightarrow> map_of (pydevd_to_vscode m) b = Some e"
  by (simp add: to_vscode_def split: option.splits)

lemma to_pydevd_Inr: "to_pydevd m e = Inr b \<longleftrightarrow> map_of (vscode_to_pydevd m) e = Some b"
  by (simp add: to_pydevd_def split: option.splits)

subsection \<open>The counter bounds the ids in use, whatever the calls\<close>

lemma ids_below_counter_init: "ids_below_counter IDMap_init"
  by (simp add: ids_below_counter_def IDMap_init_def)

lemma ids_below_counter_add: "ids_below_counter m \<Longrightarrow> ids_below_counter (snd (add src m))"
  unfolding ids_below_counter_def add_def Let_def
  by (fastforce simp: update_conv' split: if_splits)

lemma ids_below_counter_remove:
  "ids_below_counter m \<Longrightarrow> ids_below_counter (snd (remove po vo m))"
  unfolding ids_below_counter_def remove_def Let_def
  by (auto simp: delete_conv' split: option.splits if_splits)

lemma ids_below_counter_to_vscode:
  "ids_below_counter m \<Longrightarrow> ids_below_counter (snd (to_vscode p autogen m))"
  by (simp add: to_vscode_def ids_below_counter_add split: option.splits)

lemma ids_below_counter_call: "ids_below_counter m \<Longrightarrow> ids_below_counter (call c m)"
  by (cases c)
     (simp_all add: ids_below_counter_add ids_below_counter_remove ids_below_counter_to_vscode)

lemma ids_below_counter_calls: "ids_below_counter m \<Longrightarrow> ids_below_counter (calls cs m)"
  by (induction cs arbitrary: m) (simp_all add: ids_below_counter_call)

lemma next_id_add: "next_id (snd (add src m)) = next_id m + 1"
  by (simp add: add_def Let_def)

lemma next_id_remove: "next_id (snd (remove po vo m)) = next_id m"
  by (simp add: remove_def Let_def split: option.splits)

lemma next_id_call: "next_id m \<le> next_id (call c m)"
  by (cases c) (simp_all add: next_id_add next_id_remove to_vscode_def split: option.splits)

lemma allocated_bounds:
  "x \<in> set (allocated c m) \<Longrightarrow> next_id m \<le> x \<and> x < next_id (call c m)"
  by (cases c) (auto simp: add_def Let_def to_vscode_def split: if_splits)

lemma allocated_sorted: "sorted_wrt (<) (allocated c m)"
  by (cases c) simp_all

lemma allocations_increasing:
  "sorted_wrt (<) (allocations cs m) \<and> (\<forall>x \<in> set (allocations cs m). next_id m \<le> x)"
proof (induction cs arbitrary: m)
  case Nil
  show ?case by simp
next
  case (Cons c cs)
  have later: "\<forall>y \<in> set (allocations cs (call c m)). next_id (call c m) \<le> y"
    using Cons.IH by blast
  have "\<forall>x \<in> set (allocated c m). \<forall>y \<in> set (allocations cs (call c m)). x < y"
    using allocated_bounds later by fastforce
  moreover have "\<forall>y \<in> set (allocations cs (call c m)). next_id m \<le> y"
    using later next_id_call [of m c] by fastforce
  ultimately show ?case
    using Cons.IH allocated_sorted [of c m] allocated_bounds [of _ c m]
    by (auto simp: sorted_wrt_append)
qed

lemma add_keeps_mappings:
  assumes "ids_below_counter m" and "map_of (vscode_to_pydevd m) e = Some b"
  shows "fst (add src m) \<noteq> e \<and> map_of (vscode_to_pydevd (snd (add src m))) e = Some b"
  using assms unfolding ids_below_counter_def add_def Let_def
  by (fastforce simp: update_conv')

section \<open>Properties of PydevdSocket\<close>

lemma seq_make_packet: "seq (snd (make_packet cmd_id args s)) = seq s + 1"
  by (simp add: make_packet_def)

lemma seq_send: "seq (snd (send L data s)) = seq s"
  by (simp add: send_def split: option.splits list.splits prod.splits)

lemma seq_perform: "seq s \<le> seq (perform L c s)"
  by (cases c) (simp_all add: pydevd_notify_def pydevd_request_def Let_def seq_make_packet seq_send)

lemma seq_perform_issuing:
  "seq (perform L (Notify cmd_id args) s) = seq s + 1"
  "seq (perform L (Request loop fut cmd_id args) s) = seq s + 1"
  by (simp_all add: pydevd_notify_def pydevd_request_def Let_def seq_make_packet)

lemma issued_increasing:
  "sorted_wrt (<) (issued L cs s) \<and> (\<forall>x \<in> set (issued L cs s). seq s \<le> x)"
proof (induction L cs s rule: issued.induct)
  case (1 L s)
  show ?case by simp
next
  case (2 L cmd_id args cs s)
  then show ?case
    by (fastforce simp: make_packet_def seq_perform_issuing simp del: perform.simps)
next
  case (3 L loop fut cmd_id args cs s)
  then show ?case
    by (fastforce simp: make_packet_def seq_perform_issuing simp del: perform.simps)
next
  case (4 L data cs s)
  then show ?case
    by (simp add: seq_send)
qed

lemma requests_pydevd_request:
  "map_of (requests (snd (pydevd_request loop fut cmd_id args s))) (seq s) = Some (loop, fut)"
  by (simp add: pydevd_request_def make_packet_def Let_def update_conv')

lemma make_packet_record:
  "make_packet cmd_id args \<lparr>seq = n, requests = r, pipe_w = w\<rparr> =
     ((n, packet_text cmd_id n args),
      \<lparr>seq = n + 1, requests = r, pipe_w = w\<rparr>)"
  by (simp add: make_packet_def)

lemma pydevd_notify_record:
  "pydevd_notify cmd_id args \<lparr>seq = n, requests = r, pipe_w = w\<rparr> =
     \<lparr>seq = n + 1, requests = r,
      pipe_w = w @ [packet_text cmd_id n args]\<rparr>"
  by (simp add: pydevd_notify_def make_packet_record Let_def)

lemma pydevd_request_record:
  "pydevd_request loop fut cmd_id args \<lparr>seq = n, requests = r, pipe_w = w\<rparr> =
     (fut, \<lparr>seq = n + 1, requests = AList.update n (loop, fut) r,
      pipe_w = w @ [packet_text cmd_id n args]\<rparr>)"
  by (simp add: pydevd_request_def make_packet_record Let_def)

lemma split_max_2:
  "split_max c 2 s =
     (case snd (split_first c s) of
        None \<Rightarrow> [s]
      | Some r \<Rightarrow>
          fst (split_first c s) #
            (case snd (split_first c r) of
               None \<Rightarrow> [r]
             | Some r' \<Rightarrow> [fst (split_first c r), r']))"
  by (simp add: numeral_2_eq_2 split: option.splits)

lemmas socket_eval =
  PydevdSocket_init_def make_packet_record pydevd_notify_record pydevd_request_record
  send_def split_max_2 TAB_def plain_library_def

section \<open>Properties of the request handlers\<close>

lemma proc_pydevd_notify_fields:
  "pipe_w (pydevd (proc_pydevd_notify c a st)) =
     pipe_w (pydevd st) @ [packet_text c (seq (pydevd st)) a]"
  "seq (pydevd (proc_pydevd_notify c a st)) = seq (pydevd st) + 1"
  "requests (pydevd (proc_pydevd_notify c a st)) = requests (pydevd st)"
  "sent (proc_pydevd_notify c a st) = sent st"
  "thread_map (proc_pydevd_notify c a st) = thread_map st"
  "frame_map (proc_pydevd_notify c a st) = frame_map st"
  "var_map (proc_pydevd_notify c a st) = var_map st"
  "bp_map (proc_pydevd_notify c a st) = bp_map st"
  "stack_traces (proc_pydevd_notify c a st) = stack_traces st"
  by (simp_all add: proc_pydevd_notify_def pydevd_notify_def make_packet_def Let_def)

lemma fold_notify_fields:
  "pipe_w (pydevd (fold (proc_pydevd_notify c) as st)) =
     pipe_w (pydevd st) @ notifications c (seq (pydevd st)) as \<and>
   seq (pydevd (fold (proc_pydevd_notify c) as st)) = seq (pydevd st) + int (length as) \<and>
   requests (pydevd (fold (proc_pydevd_notify c) as st)) = requests (pydevd st) \<and>
   sent (fold (proc_pydevd_notify c) as st) = sent st \<and>
   thread_map (fold (proc_pydevd_notify c) as st) = thread_map st"
  by (induction as arbitrary: st) (simp_all add: proc_pydevd_notify_fields)

lemma send_response_fields:
  "sent (send_response req b st) = sent st @ [Response req b]"
  "pydevd (send_response req b st) = pydevd st"
  "thread_map (send_response req b st) = thread_map st"
  "frame_map (send_response req b st) = frame_map st"
  "var_map (send_response req b st) = var_map st"
  "bp_map (send_response req b st) = bp_map st"
  "stack_traces (send_response req b st) = stack_traces st"
  by (simp_all add: send_response_def)


lemma notifications_member:
  "a \<in> set as \<Longrightarrow> \<exists>n. packet_text c n a \<in> set (notifications c k as)"
proof (induction as arbitrary: k)
  case Nil
  then show ?case by simp
next
  case (Cons x xs)
  show ?case
  proof (cases "a = x")
    case True
    then show ?thesis by auto
  next
    case False
    with Cons.prems have "a \<in> set xs" by simp
    from Cons.IH [OF this, of "k + 1"] show ?thesis by auto
  qed
qed

lemma to_vscode_autogen:
  "\<exists>tid. fst (to_vscode k True m) = Inr tid \<and>
     map_of (pydevd_to_vscode (snd (to_vscode k True m))) k = Some tid"
  by (cases "map_of (pydevd_to_vscode m) k")
     (simp_all add: to_vscode_def add_def Let_def update_conv')

lemma to_vscode_keeps:
  "map_of (pydevd_to_vscode m) k' = Some v \<Longrightarrow>
   map_of (pydevd_to_vscode (snd (to_vscode k autogen m))) k' = Some v"
  by (cases "map_of (pydevd_to_vscode m) k")
     (auto simp: to_vscode_def add_def Let_def update_conv')

lemma threads_loop_keeps:
  "map_of (pydevd_to_vscode tm) k = Some v \<Longrightarrow>
   map_of (pydevd_to_vscode (snd (threads_loop L xs tm acc))) k = Some v"
proof (induction xs arbitrary: tm acc)
  case Nil
  then show ?case by simp
next
  case (Cons x xs)
  obtain tid where tid: "fst (to_vscode (py_opt (attr x ''id'')) True tm) = Inr tid"
    using to_vscode_autogen [of "py_opt (attr x ''id'')" tm] by auto
  from Cons.prems have "map_of (pydevd_to_vscode (snd (to_vscode (py_opt (attr x ''id'')) True tm))) k = Some v"
    by (rule to_vscode_keeps)
  from Cons.IH [OF this] tid show ?case by simp
qed

lemma threads_loop_registers:
  "x \<in> set xs \<Longrightarrow>
   map_of (pydevd_to_vscode (snd (threads_loop L xs tm acc))) (py_opt (attr x ''id'')) \<noteq> None"
proof (induction xs arbitrary: tm acc)
  case Nil
  then show ?case by simp
next
  case (Cons y ys)
  obtain tid where tid: "fst (to_vscode (py_opt (attr y ''id'')) True tm) = Inr tid"
    and new: "map_of (pydevd_to_vscode (snd (to_vscode (py_opt (attr y ''id'')) True tm)))
                (py_opt (attr y ''id'')) = Some tid"
    using to_vscode_autogen [of "py_opt (attr y ''id'')" tm] by auto
  show ?case
  proof (cases "x = y")
    case True
    from threads_loop_keeps [OF new] tid True show ?thesis by simp
  next
    case False
    with Cons.prems have "x \<in> set ys" by simp
    from Cons.IH [OF this] tid show ?thesis by simp
  qed
qed

lemma threads_loop_returns:
  "\<exists>threads. fst (threads_loop L xs tm acc) = Inr threads \<and>
     ((\<forall>th \<in> set acc. \<forall>n. thread_name th = Some n \<longrightarrow> \<not> startswith n ''pydevd.'') \<longrightarrow>
      (\<forall>th \<in> set threads. \<forall>n. thread_name th = Some n \<longrightarrow> \<not> startswith n ''pydevd.''))"
proof (induction xs arbitrary: tm acc)
  case Nil
  show ?case by simp
next
  case (Cons x xs)
  obtain tid where tid: "fst (to_vscode (py_opt (attr x ''id'')) True tm) = Inr tid"
    using to_vscode_autogen [of "py_opt (attr x ''id'')" tm] by auto
  show ?case
  proof (cases "unquote L (attr x ''name'')")
    case None
    from Cons.IH [of "snd (to_vscode (py_opt (attr x ''id'')) True tm)" "acc @ [Thread tid None]"]
      tid None
    show ?thesis by (simp add: startswith_def)
  next
    case (Some name)
    show ?thesis
    proof (cases "name \<noteq> [] \<and> startswith name ''pydevd.''")
      case True
      from Cons.IH [of "snd (to_vscode (py_opt (attr x ''id'')) True tm)" acc] tid Some True
      show ?thesis by simp
    next
      case False
      then have "\<not> startswith name ''pydevd.''"
        by (auto simp: startswith_def)
      with Cons.IH [of "snd (to_vscode (py_opt (attr x ''id'')) True tm)"
          "acc @ [Thread tid (Some name)]"] tid Some False
      show ?thesis by (simp add: ball_Un)
    qed
  qed
qed

lemma map_of_keys: "map_of d k \<noteq> None \<Longrightarrow> k \<in> fst ` set d"
  by (simp add: map_of_eq_None_iff)

lemmas proc_eval =
  VSCodeMessageProcessor_init_def PydevdSocket_init_def IDMap_init_def
  proc_pydevd_notify_def pydevd_notify_record send_response_def send_event_def
  add_def remove_def to_pydevd_def to_vscode_def pairs_def pydevd_ids_def Let_def
  pydevd_numbers_def

section \<open>Properties of the event handlers\<close>

lemma IDMap_inv_entry:
  assumes "IDMap_inv m"
  shows "(v, k) \<in> set (vscode_to_pydevd m) \<longleftrightarrow> (k, v) \<in> set (pydevd_to_vscode m)"
proof -
  have d1: "distinct (map fst (vscode_to_pydevd m))" and d2: "distinct (map fst (pydevd_to_vscode m))"
    using assms by (simp_all add: IDMap_inv_def)
  have "(v, k) \<in> set (vscode_to_pydevd m) \<longleftrightarrow> map_of (vscode_to_pydevd m) v = Some k"
    using d1 by simp
  also have "\<dots> \<longleftrightarrow> map_of (pydevd_to_vscode m) k = Some v"
    using assms by (simp add: IDMap_inv_def)
  also have "\<dots> \<longleftrightarrow> (k, v) \<in> set (pydevd_to_vscode m)"
    using d2 by simp
  finally show ?thesis .
qed

lemma delete_as_filter: "AList.delete k d = filter (\<lambda>(k', v). k' \<noteq> k) d"
  by (induction d) auto

lemma delete_forward_as_filter:
  assumes "IDMap_inv m" and "map_of (pydevd_to_vscode m) k = Some v"
  shows "AList.delete v (vscode_to_pydevd m) = filter (\<lambda>(v', k'). k' \<noteq> k) (vscode_to_pydevd m)"
proof -
  have kv: "(k, v) \<in> set (pydevd_to_vscode m)"
    using assms(2) by (rule map_of_SomeD)
  have d2: "distinct (map fst (pydevd_to_vscode m))" and d1: "distinct (map fst (vscode_to_pydevd m))"
    using assms(1) by (simp_all add: IDMap_inv_def)
  have "v' \<noteq> v \<longleftrightarrow> k' \<noteq> k" if "(v', k') \<in> set (vscode_to_pydevd m)" for v' k'
  proof -
    have a: "(k', v') \<in> set (pydevd_to_vscode m)"
      using that IDMap_inv_entry [OF assms(1)] by blast
    have b: "(v, k) \<in> set (vscode_to_pydevd m)"
      using kv IDMap_inv_entry [OF assms(1)] by blast
    show ?thesis
      using a kv b that d1 d2 by (metis eq_key_imp_eq_value)
  qed
  then show ?thesis
    unfolding delete_as_filter by (intro filter_cong) auto
qed

lemma remove_scoped_filters:
  assumes "IDMap_inv m"
    and "\<forall>(k, v) \<in> set ps. map_of (pydevd_to_vscode m) k = Some v \<and> k \<noteq> []"
    and "distinct (map fst ps)"
  shows "fst (remove_scoped t ps m) = Inr () \<and>
    IDMap_inv (snd (remove_scoped t ps m)) \<and>
    next_id (snd (remove_scoped t ps m)) = next_id m \<and>
    pydevd_to_vscode (snd (remove_scoped t ps m)) =
      filter (\<lambda>(k, v). \<not> (k \<in> fst ` set ps \<and> scoped_to t k)) (pydevd_to_vscode m) \<and>
    vscode_to_pydevd (snd (remove_scoped t ps m)) =
      filter (\<lambda>(v, k). \<not> (k \<in> fst ` set ps \<and> scoped_to t k)) (vscode_to_pydevd m)"
  using assms
proof (induction ps arbitrary: m)
  case Nil
  then show ?case by simp
next
  case (Cons p ps)
  obtain k v where p: "p = (k, v)" by (cases p)
  have kv: "map_of (pydevd_to_vscode m) k = Some v" and ne: "k \<noteq> []"
    using Cons.prems(2) p by auto
  have rest: "\<forall>(k', v') \<in> set ps. map_of (pydevd_to_vscode m) k' = Some v' \<and> k' \<noteq> []"
    using Cons.prems(2) by auto
  have fresh: "k \<notin> fst ` set ps" and dist: "distinct (map fst ps)"
    using Cons.prems(3) p by auto
  show ?case
  proof (cases "scoped_to t k")
    case False
    have "\<And>k'. (k' \<in> fst ` set (p # ps) \<and> scoped_to t k') = (k' \<in> fst ` set ps \<and> scoped_to t k')"
      using False p by auto
    with Cons.IH [OF Cons.prems(1) rest dist] False p ne show ?thesis by simp
  next
    case True
    let ?m' = "m\<lparr>vscode_to_pydevd := AList.delete v (vscode_to_pydevd m),
                  pydevd_to_vscode := AList.delete k (pydevd_to_vscode m)\<rparr>"
    have rem: "remove (Some k) (Some v) m = (Inr (), ?m')"
      using remove_mapped [OF Cons.prems(1) kv, of "Some k" "Some v"] by simp
    have inv': "IDMap_inv ?m'"
      using IDMap_inv_delete [OF Cons.prems(1) kv] .
    have "map_of (pydevd_to_vscode ?m') k' = Some v' \<and> k' \<noteq> []" if "(k', v') \<in> set ps" for k' v'
    proof -
      from that rest have "map_of (pydevd_to_vscode m) k' = Some v' \<and> k' \<noteq> []" by blast
      moreover from that fresh have "k' \<noteq> k" by force
      ultimately show ?thesis by (simp add: delete_conv')
    qed
    then have rest': "\<forall>(k', v') \<in> set ps. map_of (pydevd_to_vscode ?m') k' = Some v' \<and> k' \<noteq> []"
      by blast
    have step: "remove_scoped t (p # ps) m = remove_scoped t ps ?m'"
      using p ne True rem by simp
    have p2v: "pydevd_to_vscode ?m' = filter (\<lambda>(k', v'). k' \<noteq> k) (pydevd_to_vscode m)"
      by (simp add: delete_as_filter)
    have v2p: "vscode_to_pydevd ?m' = filter (\<lambda>(v', k'). k' \<noteq> k) (vscode_to_pydevd m)"
      using delete_forward_as_filter [OF Cons.prems(1) kv] by simp
    have f1: "filter (\<lambda>(k', v'). \<not> (k' \<in> fst ` set ps \<and> scoped_to t k')) (pydevd_to_vscode ?m') =
        filter (\<lambda>(k', v'). \<not> (k' \<in> fst ` set (p # ps) \<and> scoped_to t k')) (pydevd_to_vscode m)"
      unfolding p2v filter_filter
      using True p by (intro filter_cong refl) (auto simp: case_prod_unfold)
    have f2: "filter (\<lambda>(v', k'). \<not> (k' \<in> fst ` set ps \<and> scoped_to t k')) (vscode_to_pydevd ?m') =
        filter (\<lambda>(v', k'). \<not> (k' \<in> fst ` set (p # ps) \<and> scoped_to t k')) (vscode_to_pydevd m)"
      unfolding v2p filter_filter
      using True p by (intro filter_cong refl) (auto simp: case_prod_unfold)
    have nid: "next_id ?m' = next_id m" by simp
    from Cons.IH [OF inv' rest' dist]
    show ?thesis
      unfolding step f1 f2 nid by blast
  qed
qed

lemma remove_scoped_pairs:
  assumes "IDMap_inv m" and "\<forall>k \<in> set (pydevd_ids m). k \<noteq> []"
  shows "fst (remove_scoped t (pairs m) m) = Inr () \<and>
    IDMap_inv (snd (remove_scoped t (pairs m) m)) \<and>
    next_id (snd (remove_scoped t (pairs m) m)) = next_id m \<and>
    pydevd_to_vscode (snd (remove_scoped t (pairs m) m)) =
      filter (\<lambda>(k, v). \<not> scoped_to t k) (pydevd_to_vscode m) \<and>
    vscode_to_pydevd (snd (remove_scoped t (pairs m) m)) =
      filter (\<lambda>(v, k). \<not> scoped_to t k) (vscode_to_pydevd m)"
proof -
  have d: "distinct (map fst (pairs m))"
    using assms(1) by (simp add: IDMap_inv_def pairs_def)
  have mapped: "\<forall>(k, v) \<in> set (pairs m). map_of (pydevd_to_vscode m) k = Some v \<and> k \<noteq> []"
    using assms(2) d by (auto simp: pairs_def pydevd_ids_def)
  have a: "filter (\<lambda>(k, v). \<not> (k \<in> fst ` set (pairs m) \<and> scoped_to t k)) (pydevd_to_vscode m) =
      filter (\<lambda>(k, v). \<not> scoped_to t k) (pydevd_to_vscode m)"
    by (intro filter_cong) (force simp: pairs_def)+
  have b: "filter (\<lambda>(v, k). \<not> (k \<in> fst ` set (pairs m) \<and> scoped_to t k)) (vscode_to_pydevd m) =
      filter (\<lambda>(v, k). \<not> scoped_to t k) (vscode_to_pydevd m)"
    using IDMap_inv_entry [OF assms(1)]
    by (intro filter_cong) (force simp: pairs_def)+
  from remove_scoped_filters [OF assms(1) mapped d, of t] a b show ?thesis by simp
qed

lemma suspended_session_fields:
  "stack_traces suspended_session =
     [(PStr ''7'',
       Several
         [[(''id'', ''1''), (''name'', ''f''), (''file'', ''a.py''), (''line'', ''3'')],
          [(''id'', ''2''), (''name'', ''main''), (''file'', ''a.py''), (''line'', ''9'')]]),
      (PStr ''8'',
       Only [(''id'', ''1''), (''name'', ''g''), (''file'', ''b.py''), (''line'', ''5'')] 0)]"
  "thread_map suspended_session =
     \<lparr>vscode_to_pydevd = [(1, PStr ''7''), (2, PStr ''8'')],
      pydevd_to_vscode = [(PStr ''7'', 1), (PStr ''8'', 2)], next_id = 3\<rparr>"
  "frame_map suspended_session =
     \<lparr>vscode_to_pydevd = [(1, [PStr ''7'', PInt 1]), (2, [PStr ''8'', PInt 1])],
      pydevd_to_vscode = [([PStr ''7'', PInt 1], 1), ([PStr ''8'', PInt 1], 2)], next_id = 3\<rparr>"
  "var_map suspended_session =
     \<lparr>vscode_to_pydevd =
        [(1, [PStr ''7'', PInt 1, PStr ''FRAME'']), (2, [PStr ''8'', PInt 1, PStr ''FRAME'']),
         (3, [PStr ''7'', PInt 1, PStr ''FRAME'', PStr ''x''])],
      pydevd_to_vscode =
        [([PStr ''7'', PInt 1, PStr ''FRAME''], 1), ([PStr ''8'', PInt 1, PStr ''FRAME''], 2),
         ([PStr ''7'', PInt 1, PStr ''FRAME'', PStr ''x''], 3)], next_id = 4\<rparr>"
  "sent suspended_session = []"
  "pydevd suspended_session = PydevdSocket_init"
  "event_loop suspended_session = 0"
  by (simp_all add: suspended_session_def VSCodeMessageProcessor_init_def idmap_eval)

lemma suspended_session_inv:
  "IDMap_inv (thread_map suspended_session)"
  "IDMap_inv (frame_map suspended_session)"
  "IDMap_inv (var_map suspended_session)"
  "IDMap_inv (bp_map suspended_session)"
  by (simp_all add: suspended_session_def VSCodeMessageProcessor_init_def
      IDMap_inv_to_vscode IDMap_inv_init)

section \<open>Properties of the stackTrace handler\<close>

lemma IDMap_inv_below: "IDMap_inv m \<Longrightarrow> ids_below_counter m"
  by (simp add: IDMap_inv_def ids_below_counter_def)

lemma to_vscode_keeps_forward:
  assumes "IDMap_inv m" and "map_of (vscode_to_pydevd m) e = Some b"
  shows "map_of (vscode_to_pydevd (snd (to_vscode k autogen m))) e = Some b"
  using assms add_keeps_mappings [OF IDMap_inv_below [OF assms(1)] assms(2), of "Given k"]
  by (simp add: to_vscode_def split: option.splits)

lemma to_vscode_autogen_forward:
  assumes "IDMap_inv m"
  shows "\<exists>fid. fst (to_vscode k True m) = Inr fid \<and>
     map_of (vscode_to_pydevd (snd (to_vscode k True m))) fid = Some k"
proof -
  obtain fid where fid: "fst (to_vscode k True m) = Inr fid"
    and entry: "map_of (pydevd_to_vscode (snd (to_vscode k True m))) k = Some fid"
    using to_vscode_autogen [of k m] by auto
  have "IDMap_inv (snd (to_vscode k True m))"
    using assms by (rule IDMap_inv_to_vscode)
  with entry have "map_of (vscode_to_pydevd (snd (to_vscode k True m))) fid = Some k"
    unfolding IDMap_inv_def by blast
  with fid show ?thesis by blast
qed

lemma shows_frame_later:
  assumes "shows_frame L tid fm x f"
    and "\<And>e b. map_of (vscode_to_pydevd fm) e = Some b \<Longrightarrow> map_of (vscode_to_pydevd fm') e = Some b"
  shows "shows_frame L tid fm' x f"
  using assms unfolding shows_frame_def to_pydevd_Inr by blast

lemma stack_frames_loop_page:
  assumes "IDMap_inv fm"
    and "\<forall>x \<in> set (take (nat levels) (drop (nat startFrame) xs)). readable_frame L x"
  shows "\<exists>frames.
    fst (stack_frames_loop L tid xs startFrame levels fm acc) = Inr (acc @ frames) \<and>
    IDMap_inv (snd (stack_frames_loop L tid xs startFrame levels fm acc)) \<and>
    (\<forall>e b. map_of (vscode_to_pydevd fm) e = Some b \<longrightarrow>
       map_of (vscode_to_pydevd (snd (stack_frames_loop L tid xs startFrame levels fm acc))) e = Some b) \<and>
    list_all2 (shows_frame L tid (snd (stack_frames_loop L tid xs startFrame levels fm acc)))
      (take (nat levels) (drop (nat startFrame) xs)) frames"
  using assms
proof (induction xs arbitrary: startFrame levels fm acc)
  case Nil
  then show ?case by simp
next
  case (Cons x xs)
  show ?case
  proof (cases "startFrame > 0")
    case True
    then have d: "drop (nat startFrame) (x # xs) = drop (nat (startFrame - 1)) xs"
      by (cases "nat startFrame") (simp_all add: nat_diff_distrib)
    from Cons.IH [OF Cons.prems(1), of levels "startFrame - 1" acc] Cons.prems(2) True d
    show ?thesis by simp
  next
    case False
    note skip = this
    then have d: "drop (nat startFrame) (x # xs) = x # xs" "drop (nat startFrame) xs = xs"
      by simp_all
    show ?thesis
    proof (cases "levels \<le> 0")
      case True
      with skip Cons.prems(1) show ?thesis by simp
    next
      case False
      then have t: "take (nat levels) (x # xs) = x # take (nat (levels - 1)) xs"
        by (cases "nat levels") (simp_all add: nat_diff_distrib)
      have "readable_frame L x"
        using Cons.prems(2) d t by simp
      then obtain pyd_fid line where pid: "py_int L (attr x ''id'') = Inr pyd_fid"
        and pline: "py_int L (attr x ''line'') = Inr line"
        unfolding readable_frame_def
        by (cases "py_int L (attr x ''id'')"; cases "py_int L (attr x ''line'')") simp_all
      let ?fm1 = "snd (to_vscode [tid, PInt pyd_fid] True fm)"
      obtain fid where fid: "fst (to_vscode [tid, PInt pyd_fid] True fm) = Inr fid"
        and fwd: "map_of (vscode_to_pydevd ?fm1) fid = Some [tid, PInt pyd_fid]"
        using to_vscode_autogen_forward [OF Cons.prems(1), of "[tid, PInt pyd_fid]"] by auto
      let ?f = "Stack_frame fid (unquote L (attr x ''name'')) (unquote L (attr x ''file'')) line 0"
      let ?r = "stack_frames_loop L tid xs startFrame (levels - 1) ?fm1 (acc @ [?f])"
      have inv1: "IDMap_inv ?fm1"
        using Cons.prems(1) by (rule IDMap_inv_to_vscode)
      have rest: "\<forall>x \<in> set (take (nat (levels - 1)) (drop (nat startFrame) xs)). readable_frame L x"
        using Cons.prems(2) d t by simp
      have step: "stack_frames_loop L tid (x # xs) startFrame levels fm acc = ?r"
        using skip False pid pline fid by simp
      from Cons.IH [OF inv1 rest, of "acc @ [?f]"]
      obtain frames where res: "fst ?r = Inr ((acc @ [?f]) @ frames)"
        and inv': "IDMap_inv (snd ?r)"
        and keep: "\<forall>e b. map_of (vscode_to_pydevd ?fm1) e = Some b \<longrightarrow>
            map_of (vscode_to_pydevd (snd ?r)) e = Some b"
        and shown: "list_all2 (shows_frame L tid (snd ?r))
            (take (nat (levels - 1)) (drop (nat startFrame) xs)) frames"
        by blast
      have first: "shows_frame L tid (snd ?r) x ?f"
        unfolding shows_frame_def to_pydevd_Inr using pid pline fwd keep by simp
      have keep0: "\<forall>e b. map_of (vscode_to_pydevd fm) e = Some b \<longrightarrow>
            map_of (vscode_to_pydevd (snd ?r)) e = Some b"
        using keep to_vscode_keeps_forward [OF Cons.prems(1)] by blast
      have "fst ?r = Inr (acc @ (?f # frames))"
        using res by simp
      moreover have "list_all2 (shows_frame L tid (snd ?r))
          (take (nat levels) (drop (nat startFrame) (x # xs))) (?f # frames)"
        using first shown d t by simp
      ultimately show ?thesis
        unfolding step using inv' keep0 by blast
    qed
  qed
qed

text \<open>
  What \<^verbatim>\<open>on_stackTrace\<close> answers in general, for the cached value \<open>xframes\<close> of a known
  thread: \<open>totalFrames\<close> is \<^verbatim>\<open>len(xframes)\<close>, and the frames are those that the loop over
  \<open>xframes\<close> yields, without the first \<open>startFrame\<close> ones and cut to \<open>levels\<close> frames, or
  to \<^verbatim>\<open>len(xframes)\<close> frames when \<open>levels\<close> is 0.
\<close>

lemma on_stackTrace_uncached:
  assumes "to_pydevd (thread_map st) threadId = Inr tid"
    and "map_of (stack_traces st) tid = None"
  shows "on_stackTrace L req threadId startFrame levels st = (Inl KeyError, st)"
  using assms by (simp add: on_stackTrace_def)

lemma on_stackTrace_response:
  assumes "to_pydevd (thread_map st) threadId = Inr tid"
    and "map_of (stack_traces st) tid = Some xframes"
    and "IDMap_inv (frame_map st)"
    and "n = (if levels = 0 then int (py_len xframes) else levels)"
    and "page = take (nat n) (drop (nat startFrame) (py_iter xframes))"
    and "\<forall>x \<in> set page. readable_frame L x"
    and "st' = snd (on_stackTrace L req threadId startFrame levels st)"
  shows "fst (on_stackTrace L req threadId startFrame levels st) = Inr () \<and>
         (\<exists>frames.
            sent st' = sent st @ [Response req (Stack_trace frames (py_len xframes))] \<and>
            list_all2 (shows_frame L tid (frame_map st')) page frames)"
proof -
  let ?r = "stack_frames_loop L tid (py_iter xframes) startFrame n (frame_map st) []"
  from assms(6) have "\<forall>x \<in> set (take (nat n) (drop (nat startFrame) (py_iter xframes))).
      readable_frame L x"
    unfolding assms(5) by simp
  from stack_frames_loop_page [OF assms(3) this, of tid "[]"]
  obtain frames where res: "fst ?r = Inr frames"
    and shown: "list_all2 (shows_frame L tid (snd ?r)) page frames"
    unfolding assms(5) by auto
  have run: "on_stackTrace L req threadId startFrame levels st =
      (Inr (), send_response req (Stack_trace frames (py_len xframes)) (st\<lparr>frame_map := snd ?r\<rparr>))"
    using assms(1,2) res by (simp add: on_stackTrace_def assms(4) Let_def)
  have "sent st' = sent st @ [Response req (Stack_trace frames (py_len xframes))] \<and>
      list_all2 (shows_frame L tid (frame_map st')) page frames"
    unfolding assms(7) run using shown by (simp add: send_response_def)
  then show ?thesis by (auto simp: run)
qed

lemmas stack_eval =
  on_stackTrace_def suspended_session_fields py_int_def attr_def unquote_def plain_library_def
  to_vscode_def to_pydevd_def add_def send_response_def Let_def

section \<open>Properties of the variables handler\<close>

lemma extends_refl: "IDMap_inv vm \<Longrightarrow> extends vm vm"
  by (simp add: extends_def)

lemma extends_to_vscode:
  assumes "extends vm0 vm"
  shows "extends vm0 (snd (to_vscode k True vm))"
proof (cases "map_of (pydevd_to_vscode vm) k")
  case (Some v)
  with assms show ?thesis by (simp add: to_vscode_def)
next
  case None
  have inv: "IDMap_inv vm" using assms by (simp add: extends_def)
  have inv': "IDMap_inv (snd (to_vscode k True vm))"
    using inv by (rule IDMap_inv_to_vscode)
  have new: "pydevd_to_vscode (snd (to_vscode k True vm)) =
      AList.update k (next_id vm) (pydevd_to_vscode vm)"
    and nid: "next_id (snd (to_vscode k True vm)) = next_id vm + 1"
    using None by (simp_all add: to_vscode_def add_def Let_def)
  have nok: "map_of (pydevd_to_vscode vm0) k = None"
    using assms None unfolding extends_def by (metis option.exhaust)
  show ?thesis
    unfolding extends_def new nid
    using inv' assms None nok unfolding extends_def
    by (auto simp: update_conv' new)
qed

lemma to_vscode_known_or_new:
  assumes "extends vm0 vm"
  shows "\<exists>ref. fst (to_vscode k True vm) = Inr ref \<and>
    map_of (vscode_to_pydevd (snd (to_vscode k True vm))) ref = Some k \<and>
    (case map_of (pydevd_to_vscode vm0) k of Some known \<Rightarrow> ref = known | None \<Rightarrow> next_id vm0 \<le> ref)"
proof -
  have inv: "IDMap_inv vm" using assms by (simp add: extends_def)
  obtain ref where ref: "fst (to_vscode k True vm) = Inr ref"
    and fwd: "map_of (vscode_to_pydevd (snd (to_vscode k True vm))) ref = Some k"
    using to_vscode_autogen_forward [OF inv, of k] by auto
  have "case map_of (pydevd_to_vscode vm0) k of Some known \<Rightarrow> ref = known | None \<Rightarrow> next_id vm0 \<le> ref"
  proof (cases "map_of (pydevd_to_vscode vm) k")
    case None
    then have "ref = next_id vm" using ref by (simp add: to_vscode_def add_def Let_def)
    moreover have "map_of (pydevd_to_vscode vm0) k = None"
      using assms None unfolding extends_def by (metis option.exhaust)
    ultimately show ?thesis using assms by (simp add: extends_def)
  next
    case (Some v)
    then have "ref = v" using ref by (simp add: to_vscode_def)
    with Some assms show ?thesis
      unfolding extends_def by (cases "map_of (pydevd_to_vscode vm0) k") fastforce+
  qed
  with ref fwd show ?thesis by blast
qed

lemma shows_variable_later:
  assumes "shows_variable L pyd_var vm0 vm1 x v"
    and "\<forall>e b. map_of (vscode_to_pydevd vm1) e = Some b \<longrightarrow> map_of (vscode_to_pydevd vm2) e = Some b"
  shows "shows_variable L pyd_var vm0 vm2 x v"
  using assms unfolding shows_variable_def to_pydevd_Inr
  by (cases "py_bool (attr x ''isContainer'')") auto

lemma variables_loop_shows:
  assumes "extends vm0 vm"
  shows "\<exists>vars.
    fst (variables_loop L pyd_var xs vm acc) = Inr (acc @ vars) \<and>
    extends vm0 (snd (variables_loop L pyd_var xs vm acc)) \<and>
    (\<forall>e b. map_of (vscode_to_pydevd vm) e = Some b \<longrightarrow>
       map_of (vscode_to_pydevd (snd (variables_loop L pyd_var xs vm acc))) e = Some b) \<and>
    list_all2 (shows_variable L pyd_var vm0 (snd (variables_loop L pyd_var xs vm acc))) xs vars"
  using assms
proof (induction xs arbitrary: vm acc)
  case Nil
  then show ?case by simp
next
  case (Cons x xs)
  let ?name = "unquote L (attr x ''name'')"
  let ?type = "unquote L (attr x ''type'')"
  let ?val = "unquote L (attr x ''value'')"
  show ?case
  proof (cases "py_bool (attr x ''isContainer'')")
    case False
    let ?v = "Variable ?name ?type ?val None"
    let ?r = "variables_loop L pyd_var xs vm (acc @ [?v])"
    have step: "variables_loop L pyd_var (x # xs) vm acc = ?r"
      using False by (simp add: Let_def)
    from Cons.IH [OF Cons.prems, of "acc @ [?v]"]
    obtain vars where res: "fst ?r = Inr ((acc @ [?v]) @ vars)"
      and ext: "extends vm0 (snd ?r)"
      and keep: "\<forall>e b. map_of (vscode_to_pydevd vm) e = Some b \<longrightarrow>
          map_of (vscode_to_pydevd (snd ?r)) e = Some b"
      and shown: "list_all2 (shows_variable L pyd_var vm0 (snd ?r)) xs vars"
      by blast
    have first: "shows_variable L pyd_var vm0 (snd ?r) x ?v"
      using False by (simp add: shows_variable_def)
    have "fst ?r = Inr (acc @ (?v # vars))" using res by simp
    moreover have "list_all2 (shows_variable L pyd_var vm0 (snd ?r)) (x # xs) (?v # vars)"
      using first shown by simp
    ultimately show ?thesis
      unfolding step using ext keep by blast
  next
    case True
    let ?child = "pyd_var @ [py_opt ?name]"
    let ?vm1 = "snd (to_vscode ?child True vm)"
    obtain ref where ref: "fst (to_vscode ?child True vm) = Inr ref"
      and fwd: "map_of (vscode_to_pydevd ?vm1) ref = Some ?child"
      and kind: "case map_of (pydevd_to_vscode vm0) ?child of
                   Some known \<Rightarrow> ref = known | None \<Rightarrow> next_id vm0 \<le> ref"
      using to_vscode_known_or_new [OF Cons.prems, of ?child] by auto
    let ?v = "Variable ?name ?type ?val (Some ref)"
    let ?r = "variables_loop L pyd_var xs ?vm1 (acc @ [?v])"
    have step: "variables_loop L pyd_var (x # xs) vm acc = ?r"
      using True ref by (simp add: Let_def)
    have ext1: "extends vm0 ?vm1"
      using Cons.prems by (rule extends_to_vscode)
    have inv: "IDMap_inv vm" using Cons.prems by (simp add: extends_def)
    from Cons.IH [OF ext1, of "acc @ [?v]"]
    obtain vars where res: "fst ?r = Inr ((acc @ [?v]) @ vars)"
      and ext: "extends vm0 (snd ?r)"
      and keep: "\<forall>e b. map_of (vscode_to_pydevd ?vm1) e = Some b \<longrightarrow>
          map_of (vscode_to_pydevd (snd ?r)) e = Some b"
      and shown: "list_all2 (shows_variable L pyd_var vm0 (snd ?r)) xs vars"
      by blast
    have first: "shows_variable L pyd_var vm0 (snd ?r) x ?v"
      unfolding shows_variable_def to_pydevd_Inr using True fwd keep kind by simp
    have keep0: "\<forall>e b. map_of (vscode_to_pydevd vm) e = Some b \<longrightarrow>
          map_of (vscode_to_pydevd (snd ?r)) e = Some b"
      using keep to_vscode_keeps_forward [OF inv] by blast
    have "fst ?r = Inr (acc @ (?v # vars))" using res by simp
    moreover have "list_all2 (shows_variable L pyd_var vm0 (snd ?r)) (x # xs) (?v # vars)"
      using first shown by simp
    ultimately show ?thesis
      unfolding step using ext keep0 by blast
  qed
qed

lemmas variables_eval =
  on_variables_reply_def on_variables_request_def suspended_session_fields attr_def unquote_def
  py_bool_def py_opt_def plain_library_def to_vscode_def to_pydevd_def add_def send_response_def
  proc_pydevd_request_def pydevd_request_record PydevdSocket_init_def pydevd_numbers_def Let_def

section \<open>The handlers keep the processor well formed\<close>

lemma tuple_map_init: "tuple_map IDMap_init"
  using IDMap_inv_init [where 'a = "pyval list"]
  by (simp add: tuple_map_def pydevd_ids_def IDMap_init_def)

lemma well_formed_init: "well_formed (VSCodeMessageProcessor_init l)"
  by (simp add: well_formed_def VSCodeMessageProcessor_init_def IDMap_inv_init tuple_map_init)

lemma to_vscode_ids:
  "set (pydevd_ids (snd (to_vscode k autogen m))) \<subseteq> insert k (set (pydevd_ids m))"
  by (cases "map_of (pydevd_to_vscode m) k")
     (auto simp: to_vscode_def add_def Let_def pydevd_ids_def dom_update)

lemma tuple_map_to_vscode:
  assumes "tuple_map m" and "k \<noteq> []"
  shows "tuple_map (snd (to_vscode k autogen m))"
  using assms to_vscode_ids [of k autogen m]
  unfolding tuple_map_def by (auto simp: IDMap_inv_to_vscode)

lemma threads_loop_inv:
  "IDMap_inv tm \<Longrightarrow> IDMap_inv (snd (threads_loop L xs tm acc))"
proof (induction xs arbitrary: tm acc)
  case Nil
  then show ?case by simp
next
  case (Cons x xs)
  obtain tid where tid: "fst (to_vscode (py_opt (attr x ''id'')) True tm) = Inr tid"
    using to_vscode_autogen [of "py_opt (attr x ''id'')" tm] by auto
  from Cons.IH [OF IDMap_inv_to_vscode [OF Cons.prems]] tid show ?case by simp
qed

lemma well_formed_on_threads_request:
  "well_formed st \<Longrightarrow> well_formed (on_threads_request C fut st)"
  by (simp add: well_formed_def on_threads_request_def proc_pydevd_request_def)

lemma well_formed_on_threads_reply:
  assumes "well_formed st"
  shows "well_formed (snd (on_threads_reply L req xthreads st))"
proof (cases "fst (threads_loop L xthreads (thread_map st) [])")
  case (Inl e)
  with assms show ?thesis
    by (simp add: well_formed_def on_threads_reply_def threads_loop_inv)
next
  case (Inr threads)
  with assms show ?thesis
    by (simp add: well_formed_def on_threads_reply_def send_response_def threads_loop_inv)
qed

lemma fold_notify_maps:
  "thread_map (fold (proc_pydevd_notify c) as st) = thread_map st \<and>
   frame_map (fold (proc_pydevd_notify c) as st) = frame_map st \<and>
   var_map (fold (proc_pydevd_notify c) as st) = var_map st \<and>
   bp_map (fold (proc_pydevd_notify c) as st) = bp_map st"
  by (induction as arbitrary: st) (simp_all add: proc_pydevd_notify_fields)

lemma well_formed_on_pause:
  assumes "well_formed st"
  shows "well_formed (snd (on_pause C req vsc_tid st))"
proof (cases "vsc_tid = 0")
  case True
  with assms fold_notify_maps [of "CMD_THREAD_SUSPEND C" "pydevd_ids (thread_map st)" st]
  show ?thesis
    by (simp add: on_pause_def well_formed_def send_response_fields)
next
  case False
  with assms show ?thesis
    by (cases "to_pydevd (thread_map st) vsc_tid")
       (simp_all add: on_pause_def well_formed_def send_response_fields proc_pydevd_notify_fields)
qed

lemma stack_frames_loop_inv:
  "tuple_map fm \<Longrightarrow> tuple_map (snd (stack_frames_loop L tid xs startFrame levels fm acc))"
proof (induction xs arbitrary: startFrame levels fm acc)
  case Nil
  then show ?case by simp
next
  case (Cons x xs)
  have step: "tuple_map (snd (to_vscode [tid, PInt i] True fm))" for i
    using Cons.prems by (rule tuple_map_to_vscode) simp
  show ?case
    using Cons.prems Cons.IH step by (simp split: sum.splits)
qed

lemma well_formed_on_stackTrace:
  assumes "well_formed st"
  shows "well_formed (snd (on_stackTrace L req threadId startFrame levels st))"
proof (cases "to_pydevd (thread_map st) threadId")
  case (Inl e)
  with assms show ?thesis by (simp add: on_stackTrace_def)
next
  case (Inr tid)
  show ?thesis
  proof (cases "map_of (stack_traces st) tid")
    case None
    with Inr assms show ?thesis by (simp add: on_stackTrace_def)
  next
    case (Some xframes)
    define n where "n = (if levels = 0 then int (py_len xframes) else levels)"
    let ?r = "stack_frames_loop L tid (py_iter xframes) startFrame n (frame_map st) []"
    have "tuple_map (snd ?r)"
      using assms by (simp add: well_formed_def stack_frames_loop_inv)
    with Inr Some assms show ?thesis
      by (cases "fst ?r")
         (simp_all add: on_stackTrace_def n_def Let_def well_formed_def send_response_fields)
  qed
qed

lemma variables_loop_inv:
  "tuple_map vm \<Longrightarrow> tuple_map (snd (variables_loop L pyd_var xs vm acc))"
proof (induction xs arbitrary: vm acc)
  case Nil
  then show ?case by simp
next
  case (Cons x xs)
  have step: "tuple_map (snd (to_vscode (pyd_var @ [c]) True vm))" for c
    using Cons.prems by (rule tuple_map_to_vscode) simp
  show ?case
    using Cons.prems Cons.IH step by (simp add: Let_def split: sum.splits)
qed

lemma well_formed_on_variables_request:
  assumes "well_formed st"
  shows "well_formed (snd (on_variables_request C fut vsc_var st))"
  using assms
  by (cases "to_pydevd (var_map st) vsc_var")
     (simp_all add: well_formed_def on_variables_request_def proc_pydevd_request_def Let_def)

lemma well_formed_on_variables_reply:
  assumes "well_formed st"
  shows "well_formed (snd (on_variables_reply L req pyd_var xvars st))"
proof -
  let ?r = "variables_loop L pyd_var xvars (var_map st) []"
  have "tuple_map (snd ?r)"
    using assms by (simp add: well_formed_def variables_loop_inv)
  with assms show ?thesis
    by (cases "fst ?r")
       (simp_all add: on_variables_reply_def Let_def well_formed_def send_response_fields)
qed

lemma remove_scoped_tuple_map:
  assumes "tuple_map m"
  shows "fst (remove_scoped t (pairs m) m) = Inr () \<and> tuple_map (snd (remove_scoped t (pairs m) m))"
proof -
  have inv: "IDMap_inv m" and ne: "\<forall>k \<in> set (pydevd_ids m). k \<noteq> []"
    using assms by (simp_all add: tuple_map_def)
  note r = remove_scoped_pairs [OF inv ne, of t]
  have "\<forall>k \<in> set (pydevd_ids (snd (remove_scoped t (pairs m) m))). k \<noteq> []"
    using r ne by (auto simp: pydevd_ids_def)
  with r show ?thesis by (simp add: tuple_map_def)
qed

lemma well_formed_on_pydevd_thread_run:
  assumes "well_formed st"
  shows "well_formed (snd (on_pydevd_thread_run sq args st))"
proof (cases "\<exists>pyd_tid reason. split TAB args = [pyd_tid, reason]")
  case False
  then have "on_pydevd_thread_run sq args st = (Inl ValueError, st)"
    by (auto simp: on_pydevd_thread_run_def split: list.splits)
  with assms show ?thesis by simp
next
  case True
  then obtain T reason where fields: "split TAB args = [T, reason]" by blast
  obtain vsc_tid where tid: "fst (to_vscode (PStr T) True (thread_map st)) = Inr vsc_tid"
    using to_vscode_autogen [of "PStr T" "thread_map st"] by auto
  let ?tm = "snd (to_vscode (PStr T) True (thread_map st))"
  have tm: "IDMap_inv ?tm"
    using assms by (simp add: well_formed_def IDMap_inv_to_vscode)
  show ?thesis
  proof (cases "map_of (stack_traces st) (PStr T)")
    case None
    with fields tid tm assms show ?thesis
      by (simp add: on_pydevd_thread_run_def Let_def well_formed_def)
  next
    case (Some frames)
    have fm: "fst (remove_scoped (PStr T) (pairs (frame_map st)) (frame_map st)) = Inr () \<and>
        tuple_map (snd (remove_scoped (PStr T) (pairs (frame_map st)) (frame_map st)))"
      using assms by (simp add: well_formed_def remove_scoped_tuple_map)
    have vm: "fst (remove_scoped (PStr T) (pairs (var_map st)) (var_map st)) = Inr () \<and>
        tuple_map (snd (remove_scoped (PStr T) (pairs (var_map st)) (var_map st)))"
      using assms by (simp add: well_formed_def remove_scoped_tuple_map)
    from fields tid tm Some fm vm assms show ?thesis
      by (simp add: on_pydevd_thread_run_def Let_def well_formed_def send_event_def)
  qed
qed

lemma remove_breakpoints_all:
  assumes "IDMap_inv (bp_map st)"
    and "\<forall>(k, v) \<in> set ps. map_of (pydevd_to_vscode (bp_map st)) k = Some v"
    and "distinct (map fst ps)"
  shows "fst (remove_breakpoints C path ps st) = Inr () \<and>
    IDMap_inv (bp_map (snd (remove_breakpoints C path ps st))) \<and>
    thread_map (snd (remove_breakpoints C path ps st)) = thread_map st \<and>
    frame_map (snd (remove_breakpoints C path ps st)) = frame_map st \<and>
    var_map (snd (remove_breakpoints C path ps st)) = var_map st \<and>
    pydevd_to_vscode (bp_map (snd (remove_breakpoints C path ps st))) =
      filter (\<lambda>(k, v). k \<notin> fst ` set ps) (pydevd_to_vscode (bp_map st))"
  using assms
proof (induction ps arbitrary: st)
  case Nil
  then show ?case by simp
next
  case (Cons p ps)
  obtain k v where p: "p = (k, v)" by (cases p)
  let ?st1 = "proc_pydevd_notify (CMD_REMOVE_BREAK C)
      (PStr (''python-line'' @ [TAB] @ path @ [TAB] @ str_int v)) st"
  let ?m' = "(bp_map st)\<lparr>vscode_to_pydevd := AList.delete v (vscode_to_pydevd (bp_map st)),
                  pydevd_to_vscode := AList.delete k (pydevd_to_vscode (bp_map st))\<rparr>"
  let ?st2 = "?st1\<lparr>bp_map := ?m'\<rparr>"
  have kv: "map_of (pydevd_to_vscode (bp_map st)) k = Some v"
    using Cons.prems(2) p by simp
  have fresh: "k \<notin> fst ` set ps" and dist: "distinct (map fst ps)"
    using Cons.prems(3) p by auto
  have rem: "remove (Some k) (Some v) (bp_map st) = (Inr (), ?m')"
    using remove_mapped [OF Cons.prems(1) kv, of "Some k" "Some v"] by simp
  have step: "remove_breakpoints C path (p # ps) st = remove_breakpoints C path ps ?st2"
    using p rem by (simp add: Let_def proc_pydevd_notify_fields)
  have inv': "IDMap_inv (bp_map ?st2)"
    using IDMap_inv_delete [OF Cons.prems(1) kv] by simp
  have "map_of (pydevd_to_vscode (bp_map ?st2)) k' = Some v'" if "(k', v') \<in> set ps" for k' v'
  proof -
    from that Cons.prems(2) have "map_of (pydevd_to_vscode (bp_map st)) k' = Some v'" by auto
    moreover from that fresh have "k' \<noteq> k" by force
    ultimately show ?thesis by (simp add: delete_conv')
  qed
  then have rest: "\<forall>(k', v') \<in> set ps. map_of (pydevd_to_vscode (bp_map ?st2)) k' = Some v'"
    by blast
  have f: "filter (\<lambda>(k', v'). k' \<notin> fst ` set ps) (pydevd_to_vscode (bp_map ?st2)) =
      filter (\<lambda>(k', v'). k' \<notin> fst ` set (p # ps)) (pydevd_to_vscode (bp_map st))"
    using p by (simp add: delete_as_filter case_prod_unfold conj_commute)
  from Cons.IH [OF inv' rest dist]
  show ?case
    unfolding step f by (simp add: proc_pydevd_notify_fields)
qed

lemma set_breakpoints_inv:
  assumes "IDMap_inv (bp_map st)"
    and "\<forall>k v. map_of (pydevd_to_vscode (bp_map st)) k = Some v \<longrightarrow> (\<exists>p. k = [PStr p, PInt v])"
  shows "IDMap_inv (bp_map (snd (set_breakpoints C path lines st bps))) \<and>
    thread_map (snd (set_breakpoints C path lines st bps)) = thread_map st \<and>
    frame_map (snd (set_breakpoints C path lines st bps)) = frame_map st \<and>
    var_map (snd (set_breakpoints C path lines st bps)) = var_map st"
  using assms
proof (induction lines arbitrary: st bps)
  case Nil
  then show ?case by simp
next
  case (Cons line lines)
  let ?src = "Callable (\<lambda>vsc_bpid. [PStr path, PInt vsc_bpid])"
  let ?m1 = "snd (add ?src (bp_map st))"
  have unmapped: "map_of (pydevd_to_vscode (bp_map st)) [PStr path, PInt (next_id (bp_map st))] = None"
  proof (cases "map_of (pydevd_to_vscode (bp_map st)) [PStr path, PInt (next_id (bp_map st))]")
    case None
    then show ?thesis .
  next
    case (Some v)
    with Cons.prems(2) have "v = next_id (bp_map st)" by blast
    moreover from Some Cons.prems(1) have "v < next_id (bp_map st)"
      unfolding IDMap_inv_def by blast
    ultimately show ?thesis by simp
  qed
  have inv1: "IDMap_inv ?m1"
    using Cons.prems(1) unmapped by (intro IDMap_inv_add) simp_all
  have shape1: "\<forall>k v. map_of (pydevd_to_vscode ?m1) k = Some v \<longrightarrow> (\<exists>p. k = [PStr p, PInt v])"
    using Cons.prems(2) by (auto simp: add_def Let_def update_conv' split: if_splits)
  let ?st2 = "proc_pydevd_notify (CMD_SET_BREAK C)
      (PStr (str_int (fst (add ?src (bp_map st))) @ [TAB] @ ''python-line'' @ [TAB] @ path @ [TAB] @
         str_int line @ [TAB] @ ''None'' @ [TAB] @ ''None'' @ [TAB] @ ''None''))
      (st\<lparr>bp_map := ?m1\<rparr>)"
  have a: "IDMap_inv (bp_map ?st2)"
    using inv1 by (simp add: proc_pydevd_notify_fields)
  have b: "\<forall>k v. map_of (pydevd_to_vscode (bp_map ?st2)) k = Some v \<longrightarrow> (\<exists>p. k = [PStr p, PInt v])"
    using shape1 by (simp add: proc_pydevd_notify_fields)
  from Cons.IH [OF a b, of "bps @ [Breakpoint (fst (add ?src (bp_map st))) True line]"]
  show ?case
    by (simp add: Let_def proc_pydevd_notify_fields)
qed

lemma well_formed_on_setBreakpoints:
  assumes "well_formed st"
  shows "well_formed (snd (on_setBreakpoints C req path src_bps st))"
proof -
  have inv: "IDMap_inv (bp_map st)" using assms by (simp add: well_formed_def)
  have d: "distinct (map fst (pairs (bp_map st)))"
    using inv by (simp add: IDMap_inv_def pairs_def)
  then have mapped: "\<forall>(k, v) \<in> set (pairs (bp_map st)). map_of (pydevd_to_vscode (bp_map st)) k = Some v"
    by (auto simp: pairs_def)
  let ?st1 = "snd (remove_breakpoints C path (pairs (bp_map st)) st)"
  note r = remove_breakpoints_all [OF inv mapped d, of C path]
  have "filter (\<lambda>(k, v). k \<notin> fst ` set (pairs (bp_map st))) (pydevd_to_vscode (bp_map st)) = []"
    unfolding filter_empty_conv pairs_def by force
  with r have empty: "pydevd_to_vscode (bp_map ?st1) = []"
    by simp
  have shape: "\<forall>k v. map_of (pydevd_to_vscode (bp_map ?st1)) k = Some v \<longrightarrow> (\<exists>p. k = [PStr p, PInt v])"
    using empty by simp
  from set_breakpoints_inv [OF _ shape, of C path src_bps "[]"] r assms
  show ?thesis
    by (simp add: on_setBreakpoints_def well_formed_def send_response_fields)
qed

lemma well_formed_on_scopes:
  assumes "well_formed st"
  shows "well_formed (snd (on_scopes req vsc_fid st))"
proof (cases "\<exists>pyd_tid pyd_fid. to_pydevd (frame_map st) vsc_fid = Inr [pyd_tid, pyd_fid]")
  case False
  then have "snd (on_scopes req vsc_fid st) = st"
    by (auto simp: on_scopes_def split: sum.splits list.splits)
  with assms show ?thesis by simp
next
  case True
  then obtain pyd_tid pyd_fid where pair: "to_pydevd (frame_map st) vsc_fid = Inr [pyd_tid, pyd_fid]"
    by blast
  let ?r = "to_vscode [pyd_tid, pyd_fid, PStr ''FRAME''] True (var_map st)"
  have "tuple_map (snd ?r)"
    using assms by (intro tuple_map_to_vscode) (simp_all add: well_formed_def)
  with pair assms show ?thesis
    by (cases "fst ?r")
       (simp_all add: on_scopes_def Let_def well_formed_def send_response_fields)
qed

lemma well_formed_on_pydevd_thread_suspend:
  assumes "well_formed st"
  shows "well_formed (snd (on_pydevd_thread_suspend L C sq xthread frames st))"
proof (cases "py_int L (attr xthread ''stop_reason'')")
  case (Inl e)
  with assms show ?thesis by (simp add: on_pydevd_thread_suspend_def Let_def)
next
  case (Inr reason)
  let ?tid = "py_opt (attr xthread ''id'')"
  have tm: "IDMap_inv (snd (to_vscode ?tid True (thread_map st)))"
    using assms by (simp add: well_formed_def IDMap_inv_to_vscode)
  obtain vsc_tid where "fst (to_vscode ?tid True (thread_map st)) = Inr vsc_tid"
    using to_vscode_autogen [of ?tid "thread_map st"] by auto
  with Inr tm assms show ?thesis
    by (cases "named_children frames")
       (simp_all add: on_pydevd_thread_suspend_def Let_def well_formed_def send_event_def)
qed

lemma well_formed_handle: "well_formed st \<Longrightarrow> well_formed (handle L C c st)"
  by (cases c)
     (simp_all add: well_formed_on_threads_request well_formed_on_threads_reply
        well_formed_on_pause well_formed_on_stackTrace well_formed_on_scopes
        well_formed_on_pydevd_thread_suspend well_formed_on_variables_request
        well_formed_on_variables_reply well_formed_on_setBreakpoints
        well_formed_on_pydevd_thread_run)

lemma well_formed_handle_all: "well_formed st \<Longrightarrow> well_formed (handle_all L C cs st)"
  by (induction cs arbitrary: st) (simp_all add: well_formed_handle)

lemma well_formed_reachable: "well_formed (handle_all L C cs (VSCodeMessageProcessor_init l))"
  by (simp add: well_formed_handle_all well_formed_init)

text \<open>The caches and maps of \<open>suspended_session\<close> are those of a processor that has handled
  the suspend events of the two threads and the requests of the IDE described there.\<close>

lemma suspended_session_reached:
  "st = handle_all plain_library pydevd_numbers
     [Thread_suspend 0 [(''id'', ''7''), (''stop_reason'', ''111'')]
        [([(''id'', ''1''), (''name'', ''f''), (''file'', ''a.py''), (''line'', ''3'')], 0),
         ([(''id'', ''2''), (''name'', ''main''), (''file'', ''a.py''), (''line'', ''9'')], 0)],
      Thread_suspend 0 [(''id'', ''8''), (''stop_reason'', ''105'')]
        [([(''id'', ''1''), (''name'', ''g''), (''file'', ''b.py''), (''line'', ''5'')], 0)],
      StackTrace 1 1 0 1, StackTrace 2 2 0 1, Scopes_request 3 1, Scopes_request 4 2,
      Variables_reply 5 [PStr ''7'', PInt 1, PStr ''FRAME'']
        [[(''name'', ''x''), (''type'', ''list''), (''value'', ''[1]''), (''isContainer'', ''True'')]]]
     (VSCodeMessageProcessor_init 0) \<Longrightarrow>
   stack_traces st = stack_traces suspended_session \<and>
   thread_map st = thread_map suspended_session \<and>
   frame_map st = frame_map suspended_session \<and>
   var_map st = var_map suspended_session \<and>
   bp_map st = bp_map suspended_session"
  by (simp add: suspended_session_fields on_pydevd_thread_suspend_def on_stackTrace_def
      on_scopes_def on_variables_reply_def VSCodeMessageProcessor_init_def IDMap_init_def
      py_int_def py_opt_def py_bool_def attr_def unquote_def plain_library_def pydevd_numbers_def
      to_vscode_def to_pydevd_def add_def send_response_def send_event_def Let_def
      suspended_session_def)


section \<open>Claims about the Identifier Map\<close>

text \<open>
  C2, as stated, fails. \<^verbatim>\<open>add\<close> stores a pydevd id without looking whether it is
  mapped already: after two calls of \<^verbatim>\<open>add\<close> with the same pydevd id, VSCode ids 1
  and 2 both map to it while it maps back to 2 only, so
  \<^verbatim>\<open>to_vscode(to_pydevd(1))\<close> is 2 although both sides are mapped.
\<close>

theorem IDMap_add_same_id_twice:
  "to_pydevd (calls [Add (Given ''t''), Add (Given ''t'')] IDMap_init) 1 = Inr ''t'' \<and>
   to_pydevd (calls [Add (Given ''t''), Add (Given ''t'')] IDMap_init) 2 = Inr ''t'' \<and>
   fst (to_vscode ''t'' True (calls [Add (Given ''t''), Add (Given ''t'')] IDMap_init)) = Inr 2"
  by (simp add: idmap_eval)

text \<open>
  C2, amended: for every sequence of calls made the way the bridge makes them
  (\<^verbatim>\<open>to_vscode\<close> with or without autogen, \<^verbatim>\<open>add\<close> of a pydevd id that is not
  mapped at that moment, \<^verbatim>\<open>remove\<close> by one key or by the two keys of a mapped
  pair), after every prefix of the sequence the two dictionaries are inverse to each
  other: a mapped VSCode id \<open>e\<close> with pydevd id \<open>b\<close> is found again from \<open>b\<close>
  without any allocation, a mapped pydevd id leads back to itself, and no key is stored
  twice on either side.
\<close>

theorem IDMap_inverse_maps:
  assumes "all_as_used cs IDMap_init" and "m = calls (take n cs) IDMap_init"
  shows "(to_pydevd m e = Inr b \<longrightarrow> to_vscode b autogen m = (Inr e, m)) \<and>
         (fst (to_vscode b False m) = Inr e \<longrightarrow> to_pydevd m e = Inr b) \<and>
         distinct (vscode_ids m) \<and> distinct (pydevd_ids m)"
proof -
  have "all_as_used (take n cs) IDMap_init"
    using assms(1) by (rule all_as_used_take)
  then have inv: "IDMap_inv m"
    unfolding assms(2) by (rule IDMap_inv_calls [OF IDMap_inv_init])
  then have iff: "map_of (vscode_to_pydevd m) e = Some b \<longleftrightarrow> map_of (pydevd_to_vscode m) b = Some e"
    unfolding IDMap_inv_def by blast
  have "to_pydevd m e = Inr b \<longrightarrow> to_vscode b autogen m = (Inr e, m)"
    using iff by (simp add: to_pydevd_Inr to_vscode_def)
  moreover have "fst (to_vscode b False m) = Inr e \<longrightarrow> to_pydevd m e = Inr b"
    using iff by (simp add: to_pydevd_Inr to_vscode_no_autogen)
  moreover have "distinct (vscode_ids m)" and "distinct (pydevd_ids m)"
    using inv by (simp_all add: IDMap_inv_def vscode_ids_def pydevd_ids_def)
  ultimately show ?thesis by blast
qed

theorem IDMap_inverse_maps_witness:
  "all_as_used
     [Add (Callable (\<lambda>v. [PStr ''a.py'', PInt v])), ToVscode [PStr ''7''] True,
      Remove (Some [PStr ''a.py'', PInt 1]) (Some 1)] IDMap_init \<and>
   to_pydevd
     (calls (take 2 [Add (Callable (\<lambda>v. [PStr ''a.py'', PInt v])), ToVscode [PStr ''7''] True,
        Remove (Some [PStr ''a.py'', PInt 1]) (Some 1)]) IDMap_init) 2 = Inr [PStr ''7''] \<and>
   fst (to_vscode [PStr ''7''] True
     (calls (take 2 [Add (Callable (\<lambda>v. [PStr ''a.py'', PInt v])), ToVscode [PStr ''7''] True,
        Remove (Some [PStr ''a.py'', PInt 1]) (Some 1)]) IDMap_init)) = Inr 2 \<and>
   fst (to_vscode [PStr ''7''] False
     (calls (take 2 [Add (Callable (\<lambda>v. [PStr ''a.py'', PInt v])), ToVscode [PStr ''7''] True,
        Remove (Some [PStr ''a.py'', PInt 1]) (Some 1)]) IDMap_init)) = Inr 2"
proof -
  let ?cs = "[Add (Callable (\<lambda>v. [PStr ''a.py'', PInt v])), ToVscode [PStr ''7''] True,
      Remove (Some [PStr ''a.py'', PInt 1]) (Some 1)]"
  have used: "all_as_used ?cs IDMap_init"
    by (simp add: idmap_eval)
  have again: "to_pydevd (calls (take 2 ?cs) IDMap_init) 2 = Inr [PStr ''7'']"
    by (simp add: idmap_eval numeral_2_eq_2)
  from IDMap_inverse_maps [OF used refl, of 2 2 "[PStr ''7'']"] used again
  show ?thesis by (simp add: idmap_eval numeral_2_eq_2)
qed

text \<open>
  C9: whatever the calls on one map are, the VSCode ids that \<^verbatim>\<open>add\<close> hands out
  (directly or through \<^verbatim>\<open>to_vscode\<close>) are strictly increasing, and a call of
  \<^verbatim>\<open>add\<close> never returns a VSCode id that is still mapped and leaves every mapped
  VSCode id with the pydevd id it had.
\<close>

theorem IDMap_ids_increasing:
  "sorted_wrt (<) (allocations cs IDMap_init) \<and>
   (to_pydevd (calls cs IDMap_init) e = Inr b \<longrightarrow>
      fst (add src (calls cs IDMap_init)) \<noteq> e \<and>
      to_pydevd (snd (add src (calls cs IDMap_init))) e = Inr b)"
proof -
  have "ids_below_counter (calls cs (IDMap_init :: 'a IDMap))"
    by (simp add: ids_below_counter_calls ids_below_counter_init)
  from add_keeps_mappings [OF this, of e b src] allocations_increasing [of cs IDMap_init]
  show ?thesis
    by (simp add: to_pydevd_Inr)
qed

theorem IDMap_ids_increasing_witness:
  "allocations [ToVscode ''a'' True, ToVscode ''a'' True, Add (Given ''b''),
      Remove None (Some 1), ToVscode ''a'' True] IDMap_init = [1, 2, 3] \<and>
   to_pydevd (calls [ToVscode ''a'' True, ToVscode ''a'' True, Add (Given ''b''),
      Remove None (Some 1), ToVscode ''a'' True] IDMap_init) 2 = Inr ''b'' \<and>
   fst (add (Given ''c'') (calls [ToVscode ''a'' True, ToVscode ''a'' True, Add (Given ''b''),
      Remove None (Some 1), ToVscode ''a'' True] IDMap_init)) = 4 \<and>
   to_pydevd (snd (add (Given ''c'') (calls [ToVscode ''a'' True, ToVscode ''a'' True,
      Add (Given ''b''), Remove None (Some 1), ToVscode ''a'' True] IDMap_init))) 2 = Inr ''b''"
proof -
  let ?cs = "[ToVscode ''a'' True, ToVscode ''a'' True, Add (Given ''b''),
      Remove None (Some 1), ToVscode ''a'' True]"
  have mapped: "to_pydevd (calls ?cs IDMap_init) 2 = Inr ''b''"
    by (simp add: idmap_eval)
  have ids: "allocations ?cs IDMap_init = [1, 2, 3]"
    by (simp add: idmap_eval)
  have new: "fst (add (Given ''c'') (calls ?cs IDMap_init)) = 4"
    by (simp add: idmap_eval)
  from IDMap_ids_increasing [of ?cs 2 "''b''" "Given ''c''"] mapped ids new
  show ?thesis by simp
qed

section \<open>Claims about the Backend Channel\<close>

text \<open>
  C3: a packet that decodes to the three fields \<open>(cmd_id, sq, args)\<close> is handled by its
  sequence number. When \<open>sq\<close> is pending, \<^verbatim>\<open>send\<close> removes the entry and schedules
  \<^verbatim>\<open>fut.set_result\<close> with \<open>(cmd_id, sq, args)\<close> on the loop stored with the request,
  and this is the only delivery (the event handler is not called); the loop stored is the
  one that \<^verbatim>\<open>pydevd_request\<close> was called with. When \<open>sq\<close> is not pending, the event
  handler is called with \<open>(cmd_id, sq, args)\<close> and the table is left as it is.
\<close>

theorem send_routes_by_sequence_number:
  assumes "utf8_decode L data = Some text"
    and "split_max TAB 2 (urllib_unquote L text) = [c, q, args]"
    and "int_of_str L c = Some cmd_id" and "int_of_str L q = Some sq"
  shows "(map_of (requests s) sq = Some (loop, fut) \<longrightarrow>
            send L data s =
              (Inr (length data, Call_soon_threadsafe loop fut (cmd_id, sq, args)),
               s\<lparr>requests := AList.delete sq (requests s)\<rparr>) \<and>
            map_of (requests (snd (send L data s))) sq = None) \<and>
         (map_of (requests s) sq = None \<longrightarrow>
            send L data s = (Inr (length data, Event_handler cmd_id sq args), s)) \<and>
         map_of (requests (snd (pydevd_request loop fut cmd_id' args' s))) (seq s) = Some (loop, fut)"
  using assms by (simp add: send_def delete_conv' requests_pydevd_request)

theorem send_routes_by_sequence_number_witness:
  "send plain_library (''102'' @ [TAB] @ ''1000000000'' @ [TAB] @ ''<xml/>'')
     (snd (pydevd_request 5 9 102 (PStr '''') PydevdSocket_init)) =
     (Inr (21, Call_soon_threadsafe 5 9 (102, 1000000000, ''<xml/>'')),
      (snd (pydevd_request 5 9 102 (PStr '''') PydevdSocket_init))\<lparr>requests := []\<rparr>) \<and>
   send plain_library (''105'' @ [TAB] @ ''7'' @ [TAB] @ ''<xml/>'')
     (snd (pydevd_request 5 9 102 (PStr '''') PydevdSocket_init)) =
     (Inr (12, Event_handler 105 7 ''<xml/>''),
      snd (pydevd_request 5 9 102 (PStr '''') PydevdSocket_init))"
proof -
  let ?s = "snd (pydevd_request 5 9 102 (PStr '''') PydevdSocket_init)"
  let ?reply = "''102'' @ [TAB] @ ''1000000000'' @ [TAB] @ ''<xml/>''"
  let ?event = "''105'' @ [TAB] @ ''7'' @ [TAB] @ ''<xml/>''"
  have pending: "map_of (requests ?s) 1000000000 = Some (5, 9)"
    by (simp add: socket_eval)
  have other: "map_of (requests ?s) 7 = None"
    by (simp add: socket_eval)
  have del: "AList.delete 1000000000 (requests ?s) = []"
    by (simp add: socket_eval)
  have reply: "send plain_library ?reply ?s =
      (Inr (length ?reply, Call_soon_threadsafe 5 9 (102, 1000000000, ''<xml/>'')),
       ?s\<lparr>requests := AList.delete 1000000000 (requests ?s)\<rparr>)"
    using send_routes_by_sequence_number
      [of plain_library ?reply ?reply "''102''" "''1000000000''" "''<xml/>''" 102 1000000000 ?s 5 9]
      pending
    by (simp add: plain_library_def TAB_def split_max_2)
  have event: "send plain_library ?event ?s = (Inr (length ?event, Event_handler 105 7 ''<xml/>''), ?s)"
    using send_routes_by_sequence_number
      [of plain_library ?event ?event "''105''" "''7''" "''<xml/>''" 105 7 ?s]
      other
    by (simp add: plain_library_def TAB_def split_max_2)
  show ?thesis
    using reply event del by simp
qed

text \<open>
  C4: the socket starts its counter at 1000000000, and whatever sequence of notifications,
  requests and incoming packets it handles, the sequence numbers that \<^verbatim>\<open>make_packet\<close>
  issues (for \<^verbatim>\<open>pydevd_notify\<close> and \<^verbatim>\<open>pydevd_request\<close> alike) are strictly
  increasing and none is below 1000000000; so none equals a number \<open>b\<close> below the seed.
\<close>

theorem sequence_numbers_increasing:
  "seq PydevdSocket_init = 1000000000 \<and>
   sorted_wrt (<) (issued L cs PydevdSocket_init) \<and>
   (\<forall>x \<in> set (issued L cs PydevdSocket_init). 1000000000 \<le> x) \<and>
   (b < 1000000000 \<longrightarrow> b \<notin> set (issued L cs PydevdSocket_init))"
proof -
  have seed: "seq PydevdSocket_init = 1000000000"
    by (simp add: PydevdSocket_init_def)
  have "\<forall>x \<in> set (issued L cs PydevdSocket_init). 1000000000 \<le> x"
    using issued_increasing [of L cs PydevdSocket_init] seed by simp
  then show ?thesis
    using issued_increasing [of L cs PydevdSocket_init] seed by fastforce
qed

theorem sequence_numbers_increasing_witness:
  "issued plain_library
     [Notify 105 (PStr ''7''), Send (''105'' @ [TAB] @ ''7'' @ [TAB] @ ''x''),
      Request 5 9 102 (PStr ''''), Notify 106 (PStr ''7'')] PydevdSocket_init =
     [1000000000, 1000000001, 1000000002] \<and>
   (7::int) < 1000000000 \<and>
   7 \<notin> set (issued plain_library
     [Notify 105 (PStr ''7''), Send (''105'' @ [TAB] @ ''7'' @ [TAB] @ ''x''),
      Request 5 9 102 (PStr ''''), Notify 106 (PStr ''7'')] PydevdSocket_init)"
proof -
  let ?cs = "[Notify 105 (PStr ''7''), Send (''105'' @ [TAB] @ ''7'' @ [TAB] @ ''x''),
      Request 5 9 102 (PStr ''''), Notify 106 (PStr ''7'')]"
  have run: "issued plain_library ?cs PydevdSocket_init = [1000000000, 1000000001, 1000000002]"
    by (simp add: socket_eval)
  from sequence_numbers_increasing [of plain_library ?cs 7] run
  show ?thesis by simp
qed

section \<open>Claims about the request handlers\<close>



text \<open>
  C10: when the reply to the threads request arrives, the handler looks every reported
  thread up with \<^verbatim>\<open>to_vscode\<close> (autogen on) before it tests the name. So every
  reported thread is in the thread map afterwards, also one that the response leaves out
  because its name starts with \<^verbatim>\<open>pydevd.\<close>; and a pause request with thread id 0 that
  follows writes a suspend notification for it.
\<close>

theorem on_threads_registers_hidden_threads:
  "fst (on_threads_reply L req xthreads st) = Inr () \<and>
   (\<exists>threads.
      sent (snd (on_threads_reply L req xthreads st)) = sent st @ [Response req (Threads threads)] \<and>
      (\<forall>th \<in> set threads. \<forall>n. thread_name th = Some n \<longrightarrow> \<not> startswith n ''pydevd.'')) \<and>
   (xthread \<in> set xthreads \<longrightarrow>
      py_opt (attr xthread ''id'') \<in>
        set (pydevd_ids (thread_map (snd (on_threads_reply L req xthreads st)))) \<and>
      (\<exists>n. packet_text (CMD_THREAD_SUSPEND C) n (py_opt (attr xthread ''id'')) \<in>
        set (pipe_w (pydevd (snd (on_pause C req' 0 (snd (on_threads_reply L req xthreads st))))))))"
proof -
  let ?loop = "threads_loop L xthreads (thread_map st) []"
  let ?st' = "snd (on_threads_reply L req xthreads st)"
  obtain threads where threads: "fst ?loop = Inr threads"
    and names: "\<forall>th \<in> set threads. \<forall>n. thread_name th = Some n \<longrightarrow> \<not> startswith n ''pydevd.''"
    using threads_loop_returns [of L xthreads "thread_map st" "[]"] by auto
  have ok: "fst (on_threads_reply L req xthreads st) = Inr ()"
    using threads by (simp add: on_threads_reply_def)
  have response: "sent ?st' = sent st @ [Response req (Threads threads)]"
    using threads by (simp add: on_threads_reply_def send_response_fields)
  have map': "thread_map ?st' = snd ?loop"
    using threads by (simp add: on_threads_reply_def send_response_fields)
  have registered: "py_opt (attr xthread ''id'') \<in> set (pydevd_ids (thread_map ?st'))"
    if "xthread \<in> set xthreads"
    using threads_loop_registers [OF that, of L "thread_map st" "[]"] map'
    by (simp add: pydevd_ids_def map_of_keys)
  have suspended: "\<exists>n. packet_text (CMD_THREAD_SUSPEND C) n (py_opt (attr xthread ''id'')) \<in>
        set (pipe_w (pydevd (snd (on_pause C req' 0 ?st'))))"
    if "xthread \<in> set xthreads"
  proof -
    from notifications_member [OF registered [OF that]]
    obtain n where "packet_text (CMD_THREAD_SUSPEND C) n (py_opt (attr xthread ''id'')) \<in>
        set (notifications (CMD_THREAD_SUSPEND C) (seq (pydevd ?st')) (pydevd_ids (thread_map ?st')))"
      by blast
    moreover have "pipe_w (pydevd (snd (on_pause C req' 0 ?st'))) =
        pipe_w (pydevd ?st') @
          notifications (CMD_THREAD_SUSPEND C) (seq (pydevd ?st')) (pydevd_ids (thread_map ?st'))"
      using fold_notify_fields [of "CMD_THREAD_SUSPEND C" "pydevd_ids (thread_map ?st')" ?st']
      by (simp add: on_pause_def send_response_fields)
    ultimately show ?thesis by auto
  qed
  from ok response names registered suspended show ?thesis by blast
qed

theorem on_threads_registers_hidden_threads_witness:
  "sent (snd (on_threads_reply plain_library 1
      [[(''id'', ''1''), (''name'', ''MainThread'')], [(''id'', ''2''), (''name'', ''pydevd.Writer'')]]
      (VSCodeMessageProcessor_init 0))) =
     [Response 1 (Threads [Thread 1 (Some ''MainThread'')])] \<and>
   PStr ''2'' \<in> set (pydevd_ids (thread_map (snd (on_threads_reply plain_library 1
      [[(''id'', ''1''), (''name'', ''MainThread'')], [(''id'', ''2''), (''name'', ''pydevd.Writer'')]]
      (VSCodeMessageProcessor_init 0))))) \<and>
   (\<exists>n. packet_text 105 n (PStr ''2'') \<in>
      set (pipe_w (pydevd (snd (on_pause pydevd_numbers 2 0 (snd (on_threads_reply plain_library 1
        [[(''id'', ''1''), (''name'', ''MainThread'')], [(''id'', ''2''), (''name'', ''pydevd.Writer'')]]
        (VSCodeMessageProcessor_init 0))))))))"
proof -
  let ?xs = "[[(''id'', ''1''), (''name'', ''MainThread'')], [(''id'', ''2''), (''name'', ''pydevd.Writer'')]]"
  have response: "sent (snd (on_threads_reply plain_library 1 ?xs (VSCodeMessageProcessor_init 0))) =
      [Response 1 (Threads [Thread 1 (Some ''MainThread'')])]"
    by (simp add: on_threads_reply_def send_response_def VSCodeMessageProcessor_init_def
        idmap_eval attr_def py_opt_def unquote_def plain_library_def startswith_def)
  from on_threads_registers_hidden_threads
    [of plain_library 1 ?xs "VSCodeMessageProcessor_init 0"
        "[(''id'', ''2''), (''name'', ''pydevd.Writer'')]" pydevd_numbers 2]
    response
  show ?thesis
    by (simp add: attr_def py_opt_def pydevd_numbers_def)
qed

text \<open>
  C1 does not hold of the code. The loop that \<^verbatim>\<open>on_setBreakpoints\<close> runs first goes
  over all of \<^verbatim>\<open>bp_map.pairs()\<close> and never compares the path stored in the pydevd
  id with the path of the request, although its comment says that it deletes the
  breakpoints \<^emph>\<open>in that source\<close>. After a breakpoint has been set in \<^verbatim>\<open>a.py\<close>, a
  request for \<^verbatim>\<open>b.py\<close> sends pydevd a remove command for \<^verbatim>\<open>b.py\<close> with the id
  of the breakpoint of \<^verbatim>\<open>a.py\<close>, and drops that breakpoint from the map: the map then
  tracks the breakpoint of \<^verbatim>\<open>b.py\<close> only.
\<close>
theorem on_setBreakpoints_forgets_other_paths:
  "on_setBreakpoints pydevd_numbers 1 ''a.py'' [10] (VSCodeMessageProcessor_init 0) =
     (Inr (),
      (VSCodeMessageProcessor_init 0)
        \<lparr>pydevd := \<lparr>seq = 1000000001, requests = [],
             pipe_w = [packet_text 111 1000000000
               (PStr (str_int 1 @ [TAB] @ ''python-line'' @ [TAB] @ ''a.py'' @ [TAB] @ str_int 10 @
                  [TAB] @ ''None'' @ [TAB] @ ''None'' @ [TAB] @ ''None''))]\<rparr>,
          bp_map := \<lparr>vscode_to_pydevd = [(1, [PStr ''a.py'', PInt 1])],
             pydevd_to_vscode = [([PStr ''a.py'', PInt 1], 1)], next_id = 2\<rparr>,
          sent := [Response 1 (Breakpoints [Breakpoint 1 True 10])]\<rparr>) \<and>
   on_setBreakpoints pydevd_numbers 2 ''b.py'' [20]
     (snd (on_setBreakpoints pydevd_numbers 1 ''a.py'' [10] (VSCodeMessageProcessor_init 0))) =
     (Inr (),
      (VSCodeMessageProcessor_init 0)
        \<lparr>pydevd := \<lparr>seq = 1000000003, requests = [],
             pipe_w = [packet_text 111 1000000000
               (PStr (str_int 1 @ [TAB] @ ''python-line'' @ [TAB] @ ''a.py'' @ [TAB] @ str_int 10 @
                  [TAB] @ ''None'' @ [TAB] @ ''None'' @ [TAB] @ ''None'')),
               packet_text 112 1000000001
                 (PStr (''python-line'' @ [TAB] @ ''b.py'' @ [TAB] @ str_int 1)),
               packet_text 111 1000000002
               (PStr (str_int 2 @ [TAB] @ ''python-line'' @ [TAB] @ ''b.py'' @ [TAB] @ str_int 20 @
                  [TAB] @ ''None'' @ [TAB] @ ''None'' @ [TAB] @ ''None''))]\<rparr>,
          bp_map := \<lparr>vscode_to_pydevd = [(2, [PStr ''b.py'', PInt 2])],
             pydevd_to_vscode = [([PStr ''b.py'', PInt 2], 2)], next_id = 3\<rparr>,
          sent := [Response 1 (Breakpoints [Breakpoint 1 True 10]),
                   Response 2 (Breakpoints [Breakpoint 2 True 20])]\<rparr>)"
  by (simp add: on_setBreakpoints_def proc_eval)

section \<open>Claims about stackTrace and variables\<close>

text \<open>
  C6 fails of the code for a thread that is suspended with one frame.
  \<^verbatim>\<open>xml.thread.frame\<close>, which the suspend event caches, is then the frame element itself
  and no list: \<^verbatim>\<open>len(xframes)\<close> is the number of children of the frame, 0 for a frame
  without children, and the loop over it runs once, with the frame. After the suspend
  event of thread \<^verbatim>\<open>8\<close> with its one frame \<^verbatim>\<open>g\<close>, the stackTrace request with
  \<open>startFrame = 0\<close> and \<open>levels = 0\<close> is answered with no frame and \<open>totalFrames = 0\<close>,
  where C6 says the cached frame and \<open>totalFrames = 1\<close>; the request with \<open>levels = 1\<close>
  is answered with the frame, and with \<open>totalFrames = 0\<close> still. For thread \<^verbatim>\<open>7\<close>,
  suspended with two frames, the same request with \<open>levels = 0\<close> is answered with both
  frames and \<open>totalFrames = 2\<close>.
\<close>

theorem on_stackTrace_one_frame_thread:
  "stack_traces (handle_all plain_library pydevd_numbers
      [Thread_suspend 0 [(''id'', ''8''), (''stop_reason'', ''105'')]
         [([(''id'', ''1''), (''name'', ''g''), (''file'', ''b.py''), (''line'', ''5'')], 0)]]
      (VSCodeMessageProcessor_init 0)) =
     [(PStr ''8'', Only [(''id'', ''1''), (''name'', ''g''), (''file'', ''b.py''), (''line'', ''5'')] 0)] \<and>
   sent (handle_all plain_library pydevd_numbers
      [Thread_suspend 0 [(''id'', ''8''), (''stop_reason'', ''105'')]
         [([(''id'', ''1''), (''name'', ''g''), (''file'', ''b.py''), (''line'', ''5'')], 0)],
       StackTrace 1 1 0 0, StackTrace 2 1 0 1]
      (VSCodeMessageProcessor_init 0)) =
     [Event ''stopped'' [(''reason'', PStr ''pause''), (''threadId'', PInt 1)],
      Response 1 (Stack_trace [] 0),
      Response 2 (Stack_trace [Stack_frame 1 (Some ''g'') (Some ''b.py'') 5 0] 0)] \<and>
   sent (handle_all plain_library pydevd_numbers
      [Thread_suspend 0 [(''id'', ''7''), (''stop_reason'', ''111'')]
         [([(''id'', ''1''), (''name'', ''f''), (''file'', ''a.py''), (''line'', ''3'')], 0),
          ([(''id'', ''2''), (''name'', ''main''), (''file'', ''a.py''), (''line'', ''9'')], 0)],
       StackTrace 1 1 0 0]
      (VSCodeMessageProcessor_init 0)) =
     [Event ''stopped'' [(''reason'', PStr ''breakpoint''), (''threadId'', PInt 1)],
      Response 1 (Stack_trace
        [Stack_frame 1 (Some ''f'') (Some ''a.py'') 3 0,
         Stack_frame 2 (Some ''main'') (Some ''a.py'') 9 0] 2)]"
  by (simp add: on_pydevd_thread_suspend_def on_stackTrace_def VSCodeMessageProcessor_init_def
      IDMap_init_def py_int_def py_opt_def attr_def unquote_def plain_library_def
      pydevd_numbers_def to_vscode_def to_pydevd_def add_def send_response_def send_event_def
      Let_def)

text \<open>
  C7, as stated, fails in its last part: the reference of a container is looked up with
  \<^verbatim>\<open>to_vscode\<close>, which returns the id the child already has and allocates one only
  when it has none. When the same reply for the frame of thread \<^verbatim>\<open>7\<close> is handled a
  second time, the container \<^verbatim>\<open>y\<close> gets reference 4 again, the one of the first
  response, and no fresh one.
\<close>

theorem variables_reference_reused:
  "sent (snd (on_variables_reply plain_library 2 [PStr ''7'', PInt 1, PStr ''FRAME'']
      [[(''name'', ''y''), (''type'', ''dict''), (''value'', ''{}''), (''isContainer'', ''True'')]]
      (snd (on_variables_reply plain_library 1 [PStr ''7'', PInt 1, PStr ''FRAME'']
        [[(''name'', ''y''), (''type'', ''dict''), (''value'', ''{}''), (''isContainer'', ''True'')]]
        suspended_session)))) =
     [Response 1 (Variables [Variable (Some ''y'') (Some ''dict'') (Some ''{}'') (Some 4)]),
      Response 2 (Variables [Variable (Some ''y'') (Some ''dict'') (Some ''{}'') (Some 4)])]"
  by (simp add: variables_eval)

text \<open>
  C7, amended: a variables request for a mapped container writes one request packet, with
  the get-frame command when the pydevd id of the container has three components and the
  get-variable command otherwise, and with the components of the id joined by tabs. When
  the reply is handled (the variable map being well formed), the response has one
  variable for each returned variable, in order; every variable marked as a container
  carries as \<^verbatim>\<open>variablesReference\<close> the id that the variable map gives the pydevd id
  of the parent with the variable's name appended: the id that child already had if it
  was mapped before, and a newly allocated id otherwise.
\<close>

theorem on_variables_command_and_references:
  assumes "IDMap_inv (var_map st)"
    and "st' = snd (on_variables_reply L req pyd_var xvars st)"
  shows "(to_pydevd (var_map st) vsc_var = Inr container \<longrightarrow>
            fst (on_variables_request C fut vsc_var st) = Inr container \<and>
            pipe_w (pydevd (snd (on_variables_request C fut vsc_var st))) =
              pipe_w (pydevd st) @
                [packet_text (if length container = 3 then CMD_GET_FRAME C else CMD_GET_VARIABLE C)
                   (seq (pydevd st)) (PStr (join [TAB] (map py_str container)))]) \<and>
         fst (on_variables_reply L req pyd_var xvars st) = Inr () \<and>
         (\<exists>vars. sent st' = sent st @ [Response req (Variables vars)] \<and>
            list_all2 (shows_variable L pyd_var (var_map st) (var_map st')) xvars vars)"
proof -
  have command: "fst (on_variables_request C fut vsc_var st) = Inr container \<and>
      pipe_w (pydevd (snd (on_variables_request C fut vsc_var st))) =
        pipe_w (pydevd st) @
          [packet_text (if length container = 3 then CMD_GET_FRAME C else CMD_GET_VARIABLE C)
             (seq (pydevd st)) (PStr (join [TAB] (map py_str container)))]"
    if "to_pydevd (var_map st) vsc_var = Inr container"
    using that
    by (simp add: on_variables_request_def proc_pydevd_request_def pydevd_request_def
        make_packet_def Let_def)
  let ?r = "variables_loop L pyd_var xvars (var_map st) []"
  from variables_loop_shows [OF extends_refl [OF assms(1)], of L pyd_var xvars "[]"]
  obtain vars where res: "fst ?r = Inr vars"
    and shown: "list_all2 (shows_variable L pyd_var (var_map st) (snd ?r)) xvars vars"
    by auto
  have run: "on_variables_reply L req pyd_var xvars st =
      (Inr (), send_response req (Variables vars) (st\<lparr>var_map := snd ?r\<rparr>))"
    using res by (simp add: on_variables_reply_def Let_def)
  have reply: "fst (on_variables_reply L req pyd_var xvars st) = Inr () \<and>
      (\<exists>vars. sent st' = sent st @ [Response req (Variables vars)] \<and>
         list_all2 (shows_variable L pyd_var (var_map st) (var_map st')) xvars vars)"
    unfolding assms(2) run using shown by (auto simp: send_response_def)
  from command reply show ?thesis by blast
qed

theorem on_variables_command_and_references_witness:
  "pipe_w (pydevd (snd (on_variables_request pydevd_numbers 9 1 suspended_session))) =
     [packet_text 114 1000000000 (PStr (''7'' @ [TAB] @ str_int 1 @ [TAB] @ ''FRAME''))] \<and>
   pipe_w (pydevd (snd (on_variables_request pydevd_numbers 9 3 suspended_session))) =
     [packet_text 110 1000000000
        (PStr (''7'' @ [TAB] @ str_int 1 @ [TAB] @ ''FRAME'' @ [TAB] @ ''x''))] \<and>
   sent (snd (on_variables_reply plain_library 1 [PStr ''7'', PInt 1, PStr ''FRAME'']
      [[(''name'', ''x''), (''type'', ''list''), (''value'', ''[1]''), (''isContainer'', ''True'')],
       [(''name'', ''y''), (''type'', ''dict''), (''value'', ''{}''), (''isContainer'', ''True'')],
       [(''name'', ''n''), (''type'', ''int''), (''value'', ''5'')]]
      suspended_session)) =
     [Response 1 (Variables
        [Variable (Some ''x'') (Some ''list'') (Some ''[1]'') (Some 3),
         Variable (Some ''y'') (Some ''dict'') (Some ''{}'') (Some 4),
         Variable (Some ''n'') (Some ''int'') (Some ''5'') None])] \<and>
   to_pydevd (var_map (snd (on_variables_reply plain_library 1 [PStr ''7'', PInt 1, PStr ''FRAME'']
      [[(''name'', ''x''), (''type'', ''list''), (''value'', ''[1]''), (''isContainer'', ''True'')],
       [(''name'', ''y''), (''type'', ''dict''), (''value'', ''{}''), (''isContainer'', ''True'')],
       [(''name'', ''n''), (''type'', ''int''), (''value'', ''5'')]]
      suspended_session))) 4 = Inr [PStr ''7'', PInt 1, PStr ''FRAME'', PStr ''y'']"
proof -
  let ?root = "[PStr ''7'', PInt 1, PStr ''FRAME'']"
  let ?xvars = "[[(''name'', ''x''), (''type'', ''list''), (''value'', ''[1]''), (''isContainer'', ''True'')],
       [(''name'', ''y''), (''type'', ''dict''), (''value'', ''{}''), (''isContainer'', ''True'')],
       [(''name'', ''n''), (''type'', ''int''), (''value'', ''5'')]]"
  have root: "to_pydevd (var_map suspended_session) 1 = Inr ?root"
    by (simp add: suspended_session_fields to_pydevd_def)
  have child: "to_pydevd (var_map suspended_session) 3 = Inr (?root @ [PStr ''x''])"
    by (simp add: suspended_session_fields to_pydevd_def)
  have response: "sent (snd (on_variables_reply plain_library 1 ?root ?xvars suspended_session)) =
     [Response 1 (Variables
        [Variable (Some ''x'') (Some ''list'') (Some ''[1]'') (Some 3),
         Variable (Some ''y'') (Some ''dict'') (Some ''{}'') (Some 4),
         Variable (Some ''n'') (Some ''int'') (Some ''5'') None])]"
    by (simp add: variables_eval)
  have new: "to_pydevd (var_map (snd (on_variables_reply plain_library 1 ?root ?xvars
      suspended_session))) 4 = Inr (?root @ [PStr ''y''])"
    by (simp add: variables_eval)
  from on_variables_command_and_references
         [where C = pydevd_numbers and fut = 9 and vsc_var = 1 and container = ?root
            and L = plain_library and req = 1 and pyd_var = ?root and xvars = ?xvars,
          OF suspended_session_inv(3) refl]
       on_variables_command_and_references
         [where C = pydevd_numbers and fut = 9 and vsc_var = 3 and container = "?root @ [PStr ''x'']"
            and L = plain_library and req = 1 and pyd_var = ?root and xvars = ?xvars,
          OF suspended_session_inv(3) refl]
       root child response new
  show ?thesis
    by (simp add: suspended_session_fields PydevdSocket_init_def pydevd_numbers_def)
qed

section \<open>Claims about the event handlers\<close>

text \<open>
  C5, as stated, fails: \<^verbatim>\<open>del self.stack_traces[pyd_tid]\<close> raises \<^verbatim>\<open>KeyError\<close>
  when no frame list is cached for the thread. A thread-run event for thread \<^verbatim>\<open>7\<close>
  that reaches a fresh processor registers the thread in the thread map and then raises:
  no \<^verbatim>\<open>continued\<close> event is sent.
\<close>

theorem thread_run_without_cached_frames:
  "fst (on_pydevd_thread_run 0 (''7'' @ [TAB] @ ''106'') (VSCodeMessageProcessor_init 0)) =
     Inl KeyError \<and>
   sent (snd (on_pydevd_thread_run 0 (''7'' @ [TAB] @ ''106'') (VSCodeMessageProcessor_init 0))) = [] \<and>
   pairs (thread_map (snd (on_pydevd_thread_run 0 (''7'' @ [TAB] @ ''106'')
     (VSCodeMessageProcessor_init 0)))) = [(PStr ''7'', 1)]"
  by (simp add: on_pydevd_thread_run_def split_def TAB_def proc_eval)

text \<open>
  C5, amended: for a thread-run event \<^verbatim>\<open>T\treason\<close> for a thread \<open>T\<close> whose frame list
  is cached (the frame and variable maps being well formed, with no empty tuple as a
  pydevd id), the handler deletes the cached frame list of \<open>T\<close>, removes from the frame
  map and from the variable map, in both directions, exactly the mappings whose pydevd id
  has \<open>T\<close> as its first component, leaves all other mappings as they are, and sends a
  \<^verbatim>\<open>continued\<close> event with the VSCode id that the thread map gives \<open>T\<close>.
\<close>

theorem thread_run_clears_thread:
  assumes "split TAB args = [T, reason]"
    and "map_of (stack_traces st) (PStr T) \<noteq> None"
    and "IDMap_inv (frame_map st)" and "IDMap_inv (var_map st)"
    and "\<forall>k \<in> set (pydevd_ids (frame_map st)). k \<noteq> []"
    and "\<forall>k \<in> set (pydevd_ids (var_map st)). k \<noteq> []"
    and "st' = snd (on_pydevd_thread_run sq args st)"
  shows "fst (on_pydevd_thread_run sq args st) = Inr () \<and>
    stack_traces st' = AList.delete (PStr T) (stack_traces st) \<and>
    map_of (stack_traces st') (PStr T) = None \<and>
    pydevd_to_vscode (frame_map st') =
      filter (\<lambda>(k, v). \<not> scoped_to (PStr T) k) (pydevd_to_vscode (frame_map st)) \<and>
    vscode_to_pydevd (frame_map st') =
      filter (\<lambda>(v, k). \<not> scoped_to (PStr T) k) (vscode_to_pydevd (frame_map st)) \<and>
    pydevd_to_vscode (var_map st') =
      filter (\<lambda>(k, v). \<not> scoped_to (PStr T) k) (pydevd_to_vscode (var_map st)) \<and>
    vscode_to_pydevd (var_map st') =
      filter (\<lambda>(v, k). \<not> scoped_to (PStr T) k) (vscode_to_pydevd (var_map st)) \<and>
    (\<exists>vsc_tid. fst (to_vscode (PStr T) True (thread_map st)) = Inr vsc_tid \<and>
       map_of (pydevd_to_vscode (thread_map st')) (PStr T) = Some vsc_tid \<and>
       sent st' = sent st @ [Event ''continued'' [(''threadId'', PInt vsc_tid)]])"
proof -
  obtain vsc_tid where tid: "fst (to_vscode (PStr T) True (thread_map st)) = Inr vsc_tid"
    and mapped: "map_of (pydevd_to_vscode (snd (to_vscode (PStr T) True (thread_map st)))) (PStr T) =
      Some vsc_tid"
    using to_vscode_autogen [of "PStr T" "thread_map st"] by auto
  let ?tm = "snd (to_vscode (PStr T) True (thread_map st))"
  let ?fm = "snd (remove_scoped (PStr T) (pairs (frame_map st)) (frame_map st))"
  let ?vm = "snd (remove_scoped (PStr T) (pairs (var_map st)) (var_map st))"
  note frames = remove_scoped_pairs [OF assms(3) assms(5), of "PStr T"]
  note vars = remove_scoped_pairs [OF assms(4) assms(6), of "PStr T"]
  have run: "on_pydevd_thread_run sq args st =
      (Inr (), send_event ''continued'' [(''threadId'', PInt vsc_tid)]
         (st\<lparr>thread_map := ?tm, stack_traces := AList.delete (PStr T) (stack_traces st),
             frame_map := ?fm, var_map := ?vm\<rparr>))"
    using assms(1,2) tid frames vars
    by (simp add: on_pydevd_thread_run_def Let_def)
  show ?thesis
    unfolding assms(7) run
    using frames vars mapped tid
    by (simp add: send_event_def delete_conv')
qed

theorem thread_run_clears_thread_witness:
  "fst (on_pydevd_thread_run 0 (''7'' @ [TAB] @ ''106'') suspended_session) = Inr () \<and>
   stack_traces (snd (on_pydevd_thread_run 0 (''7'' @ [TAB] @ ''106'') suspended_session)) =
     [(PStr ''8'', Only [(''id'', ''1''), (''name'', ''g''), (''file'', ''b.py''), (''line'', ''5'')] 0)] \<and>
   pairs (frame_map (snd (on_pydevd_thread_run 0 (''7'' @ [TAB] @ ''106'') suspended_session))) =
     [([PStr ''8'', PInt 1], 2)] \<and>
   vscode_to_pydevd (frame_map (snd (on_pydevd_thread_run 0 (''7'' @ [TAB] @ ''106'')
     suspended_session))) = [(2, [PStr ''8'', PInt 1])] \<and>
   pairs (var_map (snd (on_pydevd_thread_run 0 (''7'' @ [TAB] @ ''106'') suspended_session))) =
     [([PStr ''8'', PInt 1, PStr ''FRAME''], 2)] \<and>
   vscode_to_pydevd (var_map (snd (on_pydevd_thread_run 0 (''7'' @ [TAB] @ ''106'')
     suspended_session))) = [(2, [PStr ''8'', PInt 1, PStr ''FRAME''])] \<and>
   sent (snd (on_pydevd_thread_run 0 (''7'' @ [TAB] @ ''106'') suspended_session)) =
     [Event ''continued'' [(''threadId'', PInt 1)]]"
proof -
  let ?args = "''7'' @ [TAB] @ ''106''"
  have fields: "split TAB ?args = [''7'', ''106'']"
    by (simp add: split_def TAB_def)
  have cached: "map_of (stack_traces suspended_session) (PStr ''7'') \<noteq> None"
    by (simp add: suspended_session_fields)
  have tuples: "\<forall>k \<in> set (pydevd_ids (frame_map suspended_session)). k \<noteq> []"
    "\<forall>k \<in> set (pydevd_ids (var_map suspended_session)). k \<noteq> []"
    by (simp_all add: suspended_session_fields pydevd_ids_def)
  have known: "fst (to_vscode (PStr ''7'') True (thread_map suspended_session)) = Inr 1"
    by (simp add: suspended_session_fields to_vscode_def)
  from thread_run_clears_thread [OF fields cached suspended_session_inv(2,3) tuples refl, of 0] known
  show ?thesis
    by (simp add: suspended_session_fields scoped_to_def pairs_def)
qed

end
